theory Spec2Isabelle
  imports Main "HOL-Library.Word" "HOL-Library.Signed_Division" "HOL-Library.Multiset"
begin

unbundle bit_operations_syntax

section \<open>Build configuration\<close>

text \<open>
  The framework fixes the number of space dimensions at build time (\<^verbatim>\<open>g_SpaceDim\<close>).
  This development verifies the three-dimensional build: every \<^verbatim>\<open>D_TERM\<close>,
  \<^verbatim>\<open>D_EXPR\<close> and \<^verbatim>\<open>D_DECL\<close> expands to its three arguments in order,
  \<^verbatim>\<open>D_INVTERM\<close> to its three arguments in reverse order.  C++ \<^verbatim>\<open>int\<close> values are
  modelled by unbounded integers (signed overflow is undefined behaviour in the source and is
  outside the model); the \<^verbatim>\<open>unsigned\<close> trim and periodic masks are 32-bit words; integer
  division is the truncating \<open>sdiv\<close>.
\<close>

section \<open>IntVect.H\<close>

datatype IntVect = IntVect (iv0: int) (iv1: int) (iv2: int)

text \<open>\<^verbatim>\<open>operator[]\<close>, read and write.\<close>

definition ivAt :: "IntVect \<Rightarrow> nat \<Rightarrow> int" where
  "ivAt v d = (if d = 0 then iv0 v else if d = 1 then iv1 v else iv2 v)"

definition ivSet :: "IntVect \<Rightarrow> nat \<Rightarrow> int \<Rightarrow> IntVect" where
  "ivSet v d x =
     (if d = 0 then IntVect x (iv1 v) (iv2 v)
      else if d = 1 then IntVect (iv0 v) x (iv2 v)
      else IntVect (iv0 v) (iv1 v) x)"

definition ivZero :: IntVect where
  "ivZero = IntVect 0 0 0"

definition ivUnit :: IntVect where
  "ivUnit = IntVect 1 1 1"

text \<open>
  The default constructor.  Its definition is in \<^verbatim>\<open>IntVect.cpp\<close>; the repository's
  \<^verbatim>\<open>testIntVect.cpp\<close> (``Test default construction'') requires all components to be 0.
\<close>

definition ivDefault :: IntVect where
  "ivDefault = IntVect 0 0 0"

definition ivAdd :: "IntVect \<Rightarrow> IntVect \<Rightarrow> IntVect" where
  "ivAdd a b = IntVect (iv0 a + iv0 b) (iv1 a + iv1 b) (iv2 a + iv2 b)"

definition ivSub :: "IntVect \<Rightarrow> IntVect \<Rightarrow> IntVect" where
  "ivSub a b = IntVect (iv0 a - iv0 b) (iv1 a - iv1 b) (iv2 a - iv2 b)"

definition ivMul :: "IntVect \<Rightarrow> IntVect \<Rightarrow> IntVect" where
  "ivMul a b = IntVect (iv0 a * iv0 b) (iv1 a * iv1 b) (iv2 a * iv2 b)"

definition ivDiv :: "IntVect \<Rightarrow> IntVect \<Rightarrow> IntVect" where
  "ivDiv a b = IntVect (iv0 a sdiv iv0 b) (iv1 a sdiv iv1 b) (iv2 a sdiv iv2 b)"

definition ivScale :: "IntVect \<Rightarrow> int \<Rightarrow> IntVect" where
  "ivScale a s = IntVect (iv0 a * s) (iv1 a * s) (iv2 a * s)"

definition ivNeg :: "IntVect \<Rightarrow> IntVect" where
  "ivNeg a = IntVect (- iv0 a) (- iv1 a) (- iv2 a)"

definition ivLe :: "IntVect \<Rightarrow> IntVect \<Rightarrow> bool" where
  "ivLe a b = (iv0 a \<le> iv0 b \<and> iv1 a \<le> iv1 b \<and> iv2 a \<le> iv2 b)"

definition ivMax :: "IntVect \<Rightarrow> IntVect \<Rightarrow> IntVect" where
  "ivMax a b = IntVect (max (iv0 a) (iv0 b)) (max (iv1 a) (iv1 b)) (max (iv2 a) (iv2 b))"

definition ivMin :: "IntVect \<Rightarrow> IntVect \<Rightarrow> IntVect" where
  "ivMin a b = IntVect (min (iv0 a) (iv0 b)) (min (iv1 a) (iv1 b)) (min (iv2 a) (iv2 b))"

definition norm1 :: "IntVect \<Rightarrow> int" where
  "norm1 a = 0 + \<bar>iv0 a\<bar> + \<bar>iv1 a\<bar> + \<bar>iv2 a\<bar>"

definition product :: "IntVect \<Rightarrow> int" where
  "product a = 1 * iv0 a * iv1 a * iv2 a"

section \<open>Box\<close>

text \<open>
  \<^verbatim>\<open>Box.H\<close> is not among the sources; the operations below are the ones the iterators,
  the layout and the copier call.
\<close>

datatype Box = Box (loVect: IntVect) (hiVect: IntVect)

text \<open>
  Modelled from the spec: \<^verbatim>\<open>Box::Box()\<close> of the missing \<^verbatim>\<open>Box.H\<close>.  ``Empty box is any
  box with \<open>hi_i < lo_i\<close> in some dimension''; the default box is empty
  (\<^verbatim>\<open>testBox.cpp\<close>).
\<close>

definition emptyBox :: Box where
  "emptyBox = Box ivUnit ivZero"

text \<open>Modelled from the spec: \<^verbatim>\<open>Box::isEmpty\<close> of the missing \<^verbatim>\<open>Box.H\<close>.\<close>

definition isEmpty :: "Box \<Rightarrow> bool" where
  "isEmpty b = (\<not> ivLe (loVect b) (hiVect b))"

text \<open>
  Modelled from the spec: \<^verbatim>\<open>Box::dimensions\<close> and \<^verbatim>\<open>Box::size\<close> of the missing
  \<^verbatim>\<open>Box.H\<close>: ``\<open>dimensions = hi - lo + 1\<close>'', ``\<open>size = \<Pi>(hi - lo + 1)\<close>''.
\<close>

definition dimensions :: "Box \<Rightarrow> IntVect" where
  "dimensions b = ivAdd (ivSub (hiVect b) (loVect b)) ivUnit"

definition boxSize :: "Box \<Rightarrow> int" where
  "boxSize b = product (dimensions b)"

text \<open>
  Modelled from the spec: \<^verbatim>\<open>Box::contains(IntVect)\<close> and \<^verbatim>\<open>Box::contains(Box)\<close> of the
  missing \<^verbatim>\<open>Box.H\<close>: ``Containment is inclusive''.
\<close>

definition containsIV :: "Box \<Rightarrow> IntVect \<Rightarrow> bool" where
  "containsIV b v = (ivLe (loVect b) v \<and> ivLe v (hiVect b))"

definition containsBox :: "Box \<Rightarrow> Box \<Rightarrow> bool" where
  "containsBox b c = (ivLe (loVect b) (loVect c) \<and> ivLe (hiVect c) (hiVect b))"

text \<open>
  Modelled from the spec: \<^verbatim>\<open>Box::shift\<close> (by a vector, and by a scalar in one direction) of
  the missing \<^verbatim>\<open>Box.H\<close>.
\<close>

definition shift :: "Box \<Rightarrow> IntVect \<Rightarrow> Box" where
  "shift b v = Box (ivAdd (loVect b) v) (ivAdd (hiVect b) v)"

definition shiftDir :: "Box \<Rightarrow> int \<Rightarrow> nat \<Rightarrow> Box" where
  "shiftDir b n dir =
     Box (ivSet (loVect b) dir (ivAt (loVect b) dir + n))
         (ivSet (hiVect b) dir (ivAt (hiVect b) dir + n))"

text \<open>
  Modelled from the spec: \<^verbatim>\<open>Box::grow\<close> of the missing \<^verbatim>\<open>Box.H\<close>: ``\<open>grow(r)\<close> applies
  \<open>lo -= r\<close>, \<open>hi += r\<close>''; \<open>grow(r, dir)\<close> does so in one direction
  (``widen symmetrically''); ``negative \<open>r\<close> shrinks''.
\<close>

definition grow :: "Box \<Rightarrow> int \<Rightarrow> Box" where
  "grow b r =
     Box (IntVect (iv0 (loVect b) - r) (iv1 (loVect b) - r) (iv2 (loVect b) - r))
         (IntVect (iv0 (hiVect b) + r) (iv1 (hiVect b) + r) (iv2 (hiVect b) + r))"

definition growDir :: "Box \<Rightarrow> int \<Rightarrow> nat \<Rightarrow> Box" where
  "growDir b r dir =
     Box (ivSet (loVect b) dir (ivAt (loVect b) dir - r))
         (ivSet (hiVect b) dir (ivAt (hiVect b) dir + r))"

text \<open>
  Modelled from the spec: \<^verbatim>\<open>Box::operator&=\<close> of the missing \<^verbatim>\<open>Box.H\<close>: ``sets
  \<open>lo := max(a.lo, b.lo)\<close> and \<open>hi := min(a.hi, b.hi)\<close> componentwise; the result may be
  empty''.
\<close>

definition intersect :: "Box \<Rightarrow> Box \<Rightarrow> Box" where
  "intersect a b = Box (ivMax (loVect a) (loVect b)) (ivMin (hiVect a) (hiVect b))"

text \<open>
  Modelled from the spec: \<^verbatim>\<open>Box::adjBox\<close> of the missing \<^verbatim>\<open>Box.H\<close>: ``returns the box
  of width \<open>|w|\<close> cells adjacent to the \<open>side \<in> {-1,+1}\<close> face along \<open>dir\<close>, at offset
  \<open>w\<close> (if \<open>w > 0\<close> the slab lies outside the box; if \<open>w < 0\<close> it lies inside)''.  The four
  cases are the four checks of \<^verbatim>\<open>testBox.cpp\<close>.
\<close>

definition adjBox :: "Box \<Rightarrow> int \<Rightarrow> nat \<Rightarrow> int \<Rightarrow> Box" where
  "adjBox b w dir side =
     (let l = ivAt (loVect b) dir; h = ivAt (hiVect b) dir in
      if side < 0 then
        (if 0 < w then Box (ivSet (loVect b) dir (l - w)) (ivSet (hiVect b) dir (l - 1))
         else Box (loVect b) (ivSet (hiVect b) dir (l - w - 1)))
      else
        (if 0 < w then Box (ivSet (loVect b) dir (h + 1)) (ivSet (hiVect b) dir (h + w))
         else Box (ivSet (loVect b) dir (h + w + 1)) (hiVect b)))"

text \<open>The cells of a box as a set, for stating coverage and disjointness.\<close>

definition cells :: "Box \<Rightarrow> IntVect set" where
  "cells b = {v. containsIV b v}"

section \<open>BoxIterator.H\<close>

datatype BoxIterator = BoxIterator (bit_current: IntVect) (bit_box: Box)

text \<open>\<^verbatim>\<open>BoxIteratorImpl()\<close>: the current IntVect is Zero, the box is the default box.\<close>

definition BoxIterator_default :: BoxIterator where
  "BoxIterator_default = BoxIterator ivZero emptyBox"

text \<open>\<^verbatim>\<open>BoxIteratorImpl(const Box&)\<close>: starts at the lower corner.\<close>

definition BoxIterator_new :: "Box \<Rightarrow> BoxIterator" where
  "BoxIterator_new a_box = BoxIterator (loVect a_box) a_box"

text \<open>\<^verbatim>\<open>operator++\<close> with \<^verbatim>\<open>g_SpaceDim == 3\<close>.\<close>

definition BoxIterator_incr :: "BoxIterator \<Rightarrow> BoxIterator" where
  "BoxIterator_incr it =
     (let b = bit_box it;
          c = bit_current it;
          c = ivSet c 0 (ivAt c 0 + 1);
          c = (if ivAt c 0 > ivAt (hiVect b) 0
               then (let c = ivSet c 0 (ivAt (loVect b) 0) in ivSet c 1 (ivAt c 1 + 1))
               else c);
          c = (if ivAt c 1 > ivAt (hiVect b) 1
               then (let c = ivSet c 1 (ivAt (loVect b) 1) in ivSet c 2 (ivAt c 2 + 1))
               else c)
      in BoxIterator c b)"

definition BoxIterator_ok :: "BoxIterator \<Rightarrow> bool" where
  "BoxIterator_ok it = containsIV (bit_box it) (bit_current it)"

text \<open>
  The number of increments a valid iterator still has before \<^verbatim>\<open>ok()\<close> fails; it is the
  termination measure of every loop over a BoxIterator.
\<close>

definition BoxIterator_remaining :: "BoxIterator \<Rightarrow> nat" where
  "BoxIterator_remaining it =
     (if BoxIterator_ok it then
        (let b = bit_box it; c = bit_current it;
             n0 = iv0 (hiVect b) - iv0 (loVect b) + 1;
             n1 = iv1 (hiVect b) - iv1 (loVect b) + 1
         in nat ((iv2 (hiVect b) - iv2 c) * (n0 * n1) + (iv1 (hiVect b) - iv1 c) * n0
                 + (iv0 (hiVect b) - iv0 c) + 1))
      else 0)"

lemma BoxIterator_incr_box [simp]: "bit_box (BoxIterator_incr it) = bit_box it"
  by (simp add: BoxIterator_incr_def Let_def)

lemma BoxIterator_remaining_pos:
  assumes "BoxIterator_ok it"
  shows "0 < BoxIterator_remaining it"
proof -
  obtain c b where it: "it = BoxIterator c b" by (cases it)
  from assms it have le: "iv0 (loVect b) \<le> iv0 c" "iv0 c \<le> iv0 (hiVect b)"
      "iv1 (loVect b) \<le> iv1 c" "iv1 c \<le> iv1 (hiVect b)"
      "iv2 (loVect b) \<le> iv2 c" "iv2 c \<le> iv2 (hiVect b)"
    by (simp_all add: BoxIterator_ok_def containsIV_def ivLe_def)
  have "0 \<le> (iv2 (hiVect b) - iv2 c) * ((iv0 (hiVect b) - iv0 (loVect b) + 1) * (iv1 (hiVect b) - iv1 (loVect b) + 1))"
    using le by (intro mult_nonneg_nonneg) simp_all
  moreover have "0 \<le> (iv1 (hiVect b) - iv1 c) * (iv0 (hiVect b) - iv0 (loVect b) + 1)"
    using le by (intro mult_nonneg_nonneg) simp_all
  ultimately show ?thesis
    using assms le it by (simp add: BoxIterator_remaining_def Let_def)
qed

lemma BoxIterator_incr_remaining:
  assumes "BoxIterator_ok it"
  shows "BoxIterator_remaining (BoxIterator_incr it) + 1 = BoxIterator_remaining it"
proof -
  obtain c0 c1 c2 l0 l1 l2 h0 h1 h2 where it:
    "it = BoxIterator (IntVect c0 c1 c2) (Box (IntVect l0 l1 l2) (IntVect h0 h1 h2))"
    by (metis BoxIterator.exhaust Box.exhaust IntVect.exhaust)
  from assms it have le: "l0 \<le> c0" "c0 \<le> h0" "l1 \<le> c1" "c1 \<le> h1" "l2 \<le> c2" "c2 \<le> h2"
    by (simp_all add: BoxIterator_ok_def containsIV_def ivLe_def)
  define r where "r = (\<lambda>x0 x1 x2. (h2 - x2) * ((h0 - l0 + 1) * (h1 - l1 + 1)) + (h1 - x1) * (h0 - l0 + 1)
                 + (h0 - x0) + 1)"
  have rem: "BoxIterator_remaining (BoxIterator (IntVect x0 x1 x2) (Box (IntVect l0 l1 l2) (IntVect h0 h1 h2)))
      = (if l0 \<le> x0 \<and> x0 \<le> h0 \<and> l1 \<le> x1 \<and> x1 \<le> h1 \<and> l2 \<le> x2 \<and> x2 \<le> h2 then nat (r x0 x1 x2) else 0)"
    for x0 x1 x2
    by (simp add: BoxIterator_remaining_def BoxIterator_ok_def containsIV_def ivLe_def Let_def r_def)
  have pos: "1 \<le> r x0 x1 x2" if "x0 \<le> h0" "x1 \<le> h1" "x2 \<le> h2" for x0 x1 x2
  proof -
    have "0 \<le> (h2 - x2) * ((h0 - l0 + 1) * (h1 - l1 + 1))"
      using le that by (intro mult_nonneg_nonneg) simp_all
    moreover have "0 \<le> (h1 - x1) * (h0 - l0 + 1)"
      using le that by (intro mult_nonneg_nonneg) simp_all
    ultimately show ?thesis using that by (simp add: r_def)
  qed
  consider (a) "c0 < h0" | (b) "c0 = h0" "c1 < h1" | (c) "c0 = h0" "c1 = h1" "c2 < h2"
    | (d) "c0 = h0" "c1 = h1" "c2 = h2"
    using le by linarith
  then show ?thesis
  proof cases
    case a
    have inc: "BoxIterator_incr it = BoxIterator (IntVect (c0 + 1) c1 c2) (Box (IntVect l0 l1 l2) (IntVect h0 h1 h2))"
      using a le it by (simp add: BoxIterator_incr_def ivAt_def ivSet_def Let_def)
    have "r (c0 + 1) c1 c2 = r c0 c1 c2 - 1" by (simp add: r_def)
    moreover have "1 \<le> r (c0 + 1) c1 c2" using a le by (intro pos) simp_all
    ultimately show ?thesis using a le unfolding inc unfolding it rem by simp
  next
    case b
    have inc: "BoxIterator_incr it = BoxIterator (IntVect l0 (c1 + 1) c2) (Box (IntVect l0 l1 l2) (IntVect h0 h1 h2))"
      using b le it by (simp add: BoxIterator_incr_def ivAt_def ivSet_def Let_def)
    have "r l0 (c1 + 1) c2 = r c0 c1 c2 - 1" using b by (simp add: r_def algebra_simps)
    moreover have "1 \<le> r l0 (c1 + 1) c2" using b le by (intro pos) simp_all
    ultimately show ?thesis using b le unfolding inc unfolding it rem by simp
  next
    case c
    have inc: "BoxIterator_incr it = BoxIterator (IntVect l0 l1 (c2 + 1)) (Box (IntVect l0 l1 l2) (IntVect h0 h1 h2))"
      using c le it by (simp add: BoxIterator_incr_def ivAt_def ivSet_def Let_def)
    have "r l0 l1 (c2 + 1) = r c0 c1 c2 - 1" using c by (simp add: r_def algebra_simps)
    moreover have "1 \<le> r l0 l1 (c2 + 1)" using c le by (intro pos) simp_all
    ultimately show ?thesis using c le unfolding inc unfolding it rem by simp
  next
    case d
    have inc: "BoxIterator_incr it = BoxIterator (IntVect l0 l1 (c2 + 1)) (Box (IntVect l0 l1 l2) (IntVect h0 h1 h2))"
      using d le it by (simp add: BoxIterator_incr_def ivAt_def ivSet_def Let_def)
    have "r c0 c1 c2 = 1" using d by (simp add: r_def)
    then show ?thesis using d le unfolding inc unfolding it rem by simp
  qed
qed

text \<open>
  The loop \<^verbatim>\<open>for (BoxIterator bit(box); bit.ok(); ++bit)\<close>: the IntVects it visits, in order,
  from a given iterator state.
\<close>

function BoxIterator_cells :: "BoxIterator \<Rightarrow> IntVect list" where
  "BoxIterator_cells it =
     (if BoxIterator_ok it then bit_current it # BoxIterator_cells (BoxIterator_incr it) else [])"
  by pat_completeness auto
termination
proof (relation "measure BoxIterator_remaining")
  show "wf (measure BoxIterator_remaining)" by simp
next
  fix it assume "BoxIterator_ok it"
  then show "(BoxIterator_incr it, it) \<in> measure BoxIterator_remaining"
    using BoxIterator_incr_remaining [of it] by simp
qed

declare BoxIterator_cells.simps [simp del]

text \<open>
  Fortran order written out: component 2 is the outer loop, component 0 the inner one.  This is
  the reference enumeration the iterator is compared with.
\<close>

definition fortranRow :: "Box \<Rightarrow> int \<Rightarrow> int \<Rightarrow> IntVect list" where
  "fortranRow b k j = map (\<lambda>i. IntVect i j k) [iv0 (loVect b) .. iv0 (hiVect b)]"

definition fortranPlane :: "Box \<Rightarrow> int \<Rightarrow> IntVect list" where
  "fortranPlane b k = concat (map (fortranRow b k) [iv1 (loVect b) .. iv1 (hiVect b)])"

definition fortranCells :: "Box \<Rightarrow> IntVect list" where
  "fortranCells b = concat (map (fortranPlane b) [iv2 (loVect b) .. iv2 (hiVect b)])"

definition restFrom :: "Box \<Rightarrow> IntVect \<Rightarrow> IntVect list" where
  "restFrom b c =
     map (\<lambda>i. IntVect i (iv1 c) (iv2 c)) [iv0 c .. iv0 (hiVect b)]
     @ concat (map (fortranRow b (iv2 c)) [iv1 c + 1 .. iv1 (hiVect b)])
     @ concat (map (fortranPlane b) [iv2 c + 1 .. iv2 (hiVect b)])"

lemma BoxIterator_cells_restFrom:
  "BoxIterator_ok it \<Longrightarrow> BoxIterator_cells it = restFrom (bit_box it) (bit_current it)"
proof (induction it rule: BoxIterator_cells.induct)
  case (1 it)
  obtain c0 c1 c2 l0 l1 l2 h0 h1 h2 where it:
    "it = BoxIterator (IntVect c0 c1 c2) (Box (IntVect l0 l1 l2) (IntVect h0 h1 h2))"
    by (metis BoxIterator.exhaust Box.exhaust IntVect.exhaust)
  let ?b = "Box (IntVect l0 l1 l2) (IntVect h0 h1 h2)"
  from "1.prems" it have le: "l0 \<le> c0" "c0 \<le> h0" "l1 \<le> c1" "c1 \<le> h1" "l2 \<le> c2" "c2 \<le> h2"
    by (simp_all add: BoxIterator_ok_def containsIV_def ivLe_def)
  have unf: "BoxIterator_cells it = IntVect c0 c1 c2 # BoxIterator_cells (BoxIterator_incr it)"
    using "1.prems" it by (subst BoxIterator_cells.simps) simp
  consider (a) "c0 < h0" | (b) "c0 = h0" "c1 < h1" | (c) "c0 = h0" "c1 = h1" "c2 < h2"
    | (d) "c0 = h0" "c1 = h1" "c2 = h2"
    using le by linarith
  then show ?case
  proof cases
    case a
    have inc: "BoxIterator_incr it = BoxIterator (IntVect (c0 + 1) c1 c2) ?b"
      using a le it by (simp add: BoxIterator_incr_def ivAt_def ivSet_def Let_def)
    have ok: "BoxIterator_ok (BoxIterator_incr it)"
      using a le unfolding inc by (simp add: BoxIterator_ok_def containsIV_def ivLe_def)
    have "[c0..h0] = c0 # [c0 + 1..h0]" using a by (simp add: upto_rec1)
    then show ?thesis
      using "1.IH" [OF "1.prems" ok] unfolding unf inc by (simp add: it restFrom_def)
  next
    case b
    have inc: "BoxIterator_incr it = BoxIterator (IntVect l0 (c1 + 1) c2) ?b"
      using b le it by (simp add: BoxIterator_incr_def ivAt_def ivSet_def Let_def)
    have ok: "BoxIterator_ok (BoxIterator_incr it)"
      using b le unfolding inc by (simp add: BoxIterator_ok_def containsIV_def ivLe_def)
    have "[c1 + 1..h1] = (c1 + 1) # [c1 + 1 + 1..h1]" using b by (simp add: upto_rec1)
    then show ?thesis
      using "1.IH" [OF "1.prems" ok] b unfolding unf inc
      by (simp add: it restFrom_def fortranRow_def)
  next
    case c
    have inc: "BoxIterator_incr it = BoxIterator (IntVect l0 l1 (c2 + 1)) ?b"
      using c le it by (simp add: BoxIterator_incr_def ivAt_def ivSet_def Let_def)
    have ok: "BoxIterator_ok (BoxIterator_incr it)"
      using c le unfolding inc by (simp add: BoxIterator_ok_def containsIV_def ivLe_def)
    have "[c2 + 1..h2] = (c2 + 1) # [c2 + 1 + 1..h2]" using c by (simp add: upto_rec1)
    moreover have "[l1..h1] = l1 # [l1 + 1..h1]" using c le by (simp add: upto_rec1)
    ultimately show ?thesis
      using "1.IH" [OF "1.prems" ok] c unfolding unf inc
      by (simp add: it restFrom_def fortranRow_def fortranPlane_def)
  next
    case d
    have inc: "BoxIterator_incr it = BoxIterator (IntVect l0 l1 (c2 + 1)) ?b"
      using d le it by (simp add: BoxIterator_incr_def ivAt_def ivSet_def Let_def)
    have nok: "\<not> BoxIterator_ok (BoxIterator_incr it)"
      using d unfolding inc by (simp add: BoxIterator_ok_def containsIV_def ivLe_def)
    have "BoxIterator_cells (BoxIterator_incr it) = []"
      using nok by (subst BoxIterator_cells.simps) simp
    then show ?thesis using d unfolding unf by (simp add: it restFrom_def)
  qed
qed

lemma BoxIterator_cells_fortran:
  assumes "\<not> isEmpty b"
  shows "BoxIterator_cells (BoxIterator_new b) = fortranCells b"
proof -
  obtain l0 l1 l2 h0 h1 h2 where b: "b = Box (IntVect l0 l1 l2) (IntVect h0 h1 h2)"
    by (metis Box.exhaust IntVect.exhaust)
  from assms b have le: "l0 \<le> h0" "l1 \<le> h1" "l2 \<le> h2"
    by (simp_all add: isEmpty_def ivLe_def)
  have ok: "BoxIterator_ok (BoxIterator_new b)"
    using le b by (simp add: BoxIterator_ok_def BoxIterator_new_def containsIV_def ivLe_def)
  have "[l1..h1] = l1 # [l1 + 1..h1]" "[l2..h2] = l2 # [l2 + 1..h2]"
    using le by (simp_all add: upto_rec1)
  then have "restFrom b (loVect b) = fortranCells b"
    by (simp add: b restFrom_def fortranCells_def fortranPlane_def fortranRow_def)
  then show ?thesis
    using BoxIterator_cells_restFrom [OF ok] by (simp add: BoxIterator_new_def)
qed

lemma BoxIterator_cells_empty:
  "isEmpty b \<Longrightarrow> BoxIterator_cells (BoxIterator_new b) = []"
  by (subst BoxIterator_cells.simps)
     (simp add: BoxIterator_ok_def BoxIterator_new_def containsIV_def isEmpty_def ivLe_def)

lemma in_fortranCells: "v \<in> set (fortranCells b) \<longleftrightarrow> containsIV b v"
proof -
  obtain l0 l1 l2 h0 h1 h2 where b: "b = Box (IntVect l0 l1 l2) (IntVect h0 h1 h2)"
    by (metis Box.exhaust IntVect.exhaust)
  obtain x y z where v: "v = IntVect x y z" by (cases v)
  show ?thesis
    by (auto simp: b v fortranCells_def fortranPlane_def fortranRow_def containsIV_def ivLe_def
        image_iff)
qed

lemma set_fortranCells: "set (fortranCells b) = cells b"
  by (auto simp: cells_def in_fortranCells)

lemma length_concat_const:
  "(\<And>x. x \<in> set xs \<Longrightarrow> length (f x) = m) \<Longrightarrow> length (concat (map f xs)) = length xs * m"
  by (induction xs) auto

lemma length_fortranRow: "length (fortranRow b k j) = nat (iv0 (hiVect b) - iv0 (loVect b) + 1)"
  by (simp add: fortranRow_def)

lemma length_fortranPlane:
  "length (fortranPlane b k) =
     nat (iv1 (hiVect b) - iv1 (loVect b) + 1) * nat (iv0 (hiVect b) - iv0 (loVect b) + 1)"
  unfolding fortranPlane_def
  by (subst length_concat_const [where m = "nat (iv0 (hiVect b) - iv0 (loVect b) + 1)"])
     (simp_all add: length_fortranRow)

lemma length_fortranCells:
  "length (fortranCells b) =
     nat (iv2 (hiVect b) - iv2 (loVect b) + 1) *
      (nat (iv1 (hiVect b) - iv1 (loVect b) + 1) * nat (iv0 (hiVect b) - iv0 (loVect b) + 1))"
  unfolding fortranCells_def
  by (subst length_concat_const [where m = "nat (iv1 (hiVect b) - iv1 (loVect b) + 1) * nat (iv0 (hiVect b) - iv0 (loVect b) + 1)"])
     (simp_all add: length_fortranPlane)

lemma length_fortranCells_size:
  assumes "\<not> isEmpty b"
  shows "int (length (fortranCells b)) = boxSize b"
proof -
  from assms have "0 \<le> iv0 (hiVect b) - iv0 (loVect b) + 1" "0 \<le> iv1 (hiVect b) - iv1 (loVect b) + 1"
     "0 \<le> iv2 (hiVect b) - iv2 (loVect b) + 1"
    by (simp_all add: isEmpty_def ivLe_def)
  then show ?thesis
    by (simp add: length_fortranCells boxSize_def product_def dimensions_def ivAdd_def ivSub_def
        ivUnit_def mult.commute mult.left_commute)
qed

lemma distinct_concat_map:
  assumes "distinct xs" "\<And>x. x \<in> set xs \<Longrightarrow> distinct (f x)"
    "\<And>x y. x \<in> set xs \<Longrightarrow> y \<in> set xs \<Longrightarrow> x \<noteq> y \<Longrightarrow> set (f x) \<inter> set (f y) = {}"
  shows "distinct (concat (map f xs))"
  using assms
proof (induction xs)
  case Nil
  then show ?case by simp
next
  case (Cons a xs)
  have "distinct (concat (map f xs))"
    using Cons.prems by (intro Cons.IH) auto
  moreover have "distinct (f a)" using Cons.prems(2) by simp
  moreover have "set (f a) \<inter> set (f y) = {}" if "y \<in> set xs" for y
    using Cons.prems(1) that by (intro Cons.prems(3)) auto
  ultimately show ?case by auto
qed

lemma distinct_fortranRow: "distinct (fortranRow b k j)"
  by (simp add: fortranRow_def distinct_map inj_on_def)

lemma in_fortranRow: "v \<in> set (fortranRow b k j) \<Longrightarrow> iv1 v = j \<and> iv2 v = k"
  by (auto simp: fortranRow_def)

lemma in_fortranPlane: "v \<in> set (fortranPlane b k) \<Longrightarrow> iv2 v = k"
  by (auto simp: fortranPlane_def dest: in_fortranRow)

lemma distinct_fortranPlane: "distinct (fortranPlane b k)"
  unfolding fortranPlane_def
  by (rule distinct_concat_map) (auto simp: distinct_fortranRow dest!: in_fortranRow)

lemma distinct_fortranCells: "distinct (fortranCells b)"
  unfolding fortranCells_def
  by (rule distinct_concat_map) (auto simp: distinct_fortranPlane dest!: in_fortranPlane)

text \<open>Stepping the iterator \<open>n\<close> times along the visited list.\<close>

lemma BoxIterator_cells_funpow:
  "n < length (BoxIterator_cells it) \<Longrightarrow>
     BoxIterator_ok ((BoxIterator_incr ^^ n) it) \<and>
     bit_current ((BoxIterator_incr ^^ n) it) = BoxIterator_cells it ! n"
proof (induction n arbitrary: it)
  case 0
  then show ?case
    by (subst (asm) BoxIterator_cells.simps, subst BoxIterator_cells.simps)
       (auto split: if_splits)
next
  case (Suc n)
  from Suc.prems have ok: "BoxIterator_ok it"
    by (subst (asm) BoxIterator_cells.simps) (auto split: if_splits)
  then have unf: "BoxIterator_cells it = bit_current it # BoxIterator_cells (BoxIterator_incr it)"
    by (subst BoxIterator_cells.simps) simp
  with Suc.prems have "n < length (BoxIterator_cells (BoxIterator_incr it))" by simp
  from Suc.IH [OF this] show ?case
    by (simp add: unf funpow_swap1)
qed

lemma BoxIterator_cells_funpow_end:
  "\<not> BoxIterator_ok ((BoxIterator_incr ^^ length (BoxIterator_cells it)) it)"
proof (induction it rule: BoxIterator_cells.induct)
  case (1 it)
  show ?case
  proof (cases "BoxIterator_ok it")
    case True
    then have unf: "BoxIterator_cells it = bit_current it # BoxIterator_cells (BoxIterator_incr it)"
      by (subst BoxIterator_cells.simps) simp
    show ?thesis using "1.IH" [OF True] by (simp add: unf funpow_swap1)
  next
    case False
    then have "BoxIterator_cells it = []" by (subst BoxIterator_cells.simps) simp
    with False show ?thesis by simp
  qed
qed


text \<open>
  C10.  For a non-empty box the iterator starts at the lower corner and, incremented while
  \<^verbatim>\<open>ok()\<close> holds, visits the cells of the box in Fortran order (component 0 fastest): the
  visited list is the Fortran enumeration, which holds every cell of the box exactly once; the
  \<open>n\<close>-th increment stands on the \<open>n\<close>-th cell for every \<open>n\<close> below the size of the box, and
  \<^verbatim>\<open>ok()\<close> is false after exactly \<open>size(b)\<close> cells.
\<close>

theorem BoxIterator_visits_box_in_fortran_order:
  assumes "\<not> isEmpty b"
  shows "bit_current (BoxIterator_new b) = loVect b
       \<and> BoxIterator_cells (BoxIterator_new b) = fortranCells b
       \<and> set (fortranCells b) = cells b
       \<and> distinct (fortranCells b)
       \<and> int (length (fortranCells b)) = boxSize b
       \<and> (\<forall>n. int n < boxSize b \<longrightarrow>
             BoxIterator_ok ((BoxIterator_incr ^^ n) (BoxIterator_new b))
             \<and> bit_current ((BoxIterator_incr ^^ n) (BoxIterator_new b)) = fortranCells b ! n)
       \<and> \<not> BoxIterator_ok ((BoxIterator_incr ^^ nat (boxSize b)) (BoxIterator_new b))"
proof -
  have eq: "BoxIterator_cells (BoxIterator_new b) = fortranCells b"
    by (rule BoxIterator_cells_fortran [OF assms])
  have len: "int (length (fortranCells b)) = boxSize b"
    by (rule length_fortranCells_size [OF assms])
  have steps: "BoxIterator_ok ((BoxIterator_incr ^^ n) (BoxIterator_new b))
             \<and> bit_current ((BoxIterator_incr ^^ n) (BoxIterator_new b)) = fortranCells b ! n"
    if "int n < boxSize b" for n
    using BoxIterator_cells_funpow [of n "BoxIterator_new b"] that len eq by simp
  have "nat (boxSize b) = length (BoxIterator_cells (BoxIterator_new b))"
    using len eq by simp
  then have fin: "\<not> BoxIterator_ok ((BoxIterator_incr ^^ nat (boxSize b)) (BoxIterator_new b))"
    using BoxIterator_cells_funpow_end [of "BoxIterator_new b"] by simp
  show ?thesis
    using eq len steps fin
    by (simp add: set_fortranCells distinct_fortranCells BoxIterator_new_def)
qed

theorem BoxIterator_visits_box_in_fortran_order_witness:
  "\<not> isEmpty (Box (IntVect 0 0 0) (IntVect 1 2 1))
   \<and> BoxIterator_cells (BoxIterator_new (Box (IntVect 0 0 0) (IntVect 1 2 1))) =
       [IntVect 0 0 0, IntVect 1 0 0, IntVect 0 1 0, IntVect 1 1 0, IntVect 0 2 0, IntVect 1 2 0,
        IntVect 0 0 1, IntVect 1 0 1, IntVect 0 1 1, IntVect 1 1 1, IntVect 0 2 1, IntVect 1 2 1]
   \<and> boxSize (Box (IntVect 0 0 0) (IntVect 1 2 1)) = 12
   \<and> \<not> BoxIterator_ok ((BoxIterator_incr ^^ 12) (BoxIterator_new (Box (IntVect 0 0 0) (IntVect 1 2 1))))"
proof -
  have ne: "\<not> isEmpty (Box (IntVect 0 0 0) (IntVect 1 2 1))"
    by (simp add: isEmpty_def ivLe_def)
  have sz: "boxSize (Box (IntVect 0 0 0) (IntVect 1 2 1)) = 12"
    by (simp add: boxSize_def product_def dimensions_def ivAdd_def ivSub_def ivUnit_def)
  have fc: "fortranCells (Box (IntVect 0 0 0) (IntVect 1 2 1)) =
       [IntVect 0 0 0, IntVect 1 0 0, IntVect 0 1 0, IntVect 1 1 0, IntVect 0 2 0, IntVect 1 2 0,
        IntVect 0 0 1, IntVect 1 0 1, IntVect 0 1 1, IntVect 1 1 1, IntVect 0 2 1, IntVect 1 2 1]"
    by (simp add: fortranCells_def fortranPlane_def fortranRow_def upto.simps)
  show ?thesis
    using BoxIterator_visits_box_in_fortran_order [OF ne] ne
    unfolding sz fc by simp
qed

section \<open>BoxIndex.H\<close>

datatype BoxIndex = BoxIndex (globalIndex: int) (localIndex: int)

text \<open>\<^verbatim>\<open>BoxIndex()\<close>: both indices are -1.\<close>

definition BoxIndex_default :: BoxIndex where
  "BoxIndex_default = BoxIndex (- 1) (- 1)"

section \<open>DisjointBoxLayout.H, DisjointBoxLayout.cpp\<close>

datatype BoxEntry = BoxEntry (entry_box: Box) (entry_proc: int)

text \<open>
  An element of \<^verbatim>\<open>std::vector<BoxEntry>(m_size)\<close> before it is assigned: value
  initialisation gives the default box and process 0.
\<close>

definition BoxEntry_default :: BoxEntry where
  "BoxEntry_default = BoxEntry emptyBox 0"

record DisjointBoxLayout =
  m_domain :: Box
  m_stride :: IntVect
  m_numBox :: IntVect
  m_size :: int
  m_boxes :: "BoxEntry list"
  m_localIdxBeg :: int
  m_numLocalBox :: int

text \<open>
  The ways an operation of the framework can fail.  Modelled from the spec: \<^verbatim>\<open>CH_assert\<close>
  (its header \<^verbatim>\<open>Parameters.H\<close> is not among the sources) aborts when its condition is
  false; the spec names the failure of the two assertions of \<^verbatim>\<open>define\<close>
  \<open>UnevenPartition\<close> and the failure of a region check \<open>OutOfBounds\<close>; any other
  failed assertion is \<open>AssertFailed\<close>.  The remaining constructors stand for undefined
  behaviour of the source: an integer division by zero, \<^verbatim>\<open>std::vector\<close> constructed with
  a negative element count, and a read through a null buffer pointer.
\<close>

datatype error = UnevenPartition | DivideByZero | BadAlloc | AssertFailed | NullBuffer | OutOfBounds

text \<open>The body of the box loop after the entry is stored: advance \<^verbatim>\<open>currBox\<close>.\<close>

definition nextBox :: "Box \<Rightarrow> IntVect \<Rightarrow> IntVect \<Rightarrow> Box \<Rightarrow> Box" where
  "nextBox a_domain a_maxBoxSize numBox currBox =
     (let currBox = shiftDir currBox (ivAt a_maxBoxSize 0) 0;
          currBox = (if \<not> containsBox a_domain currBox
                     then (let currBox = shiftDir currBox (ivAt a_maxBoxSize 1) 1
                           in shiftDir currBox (- ivAt a_maxBoxSize 0 * ivAt numBox 0) 0)
                     else currBox);
          currBox = (if \<not> containsBox a_domain currBox
                     then (let currBox = shiftDir currBox (ivAt a_maxBoxSize 2) 2
                           in shiftDir currBox (- ivAt a_maxBoxSize 1 * ivAt numBox 1) 1)
                     else currBox)
      in currBox)"

record FillState =
  fs_boxes :: "BoxEntry list"
  fs_currBox :: Box
  fs_linIdxBox :: nat

text \<open>One iteration of the inner loop, \<^verbatim>\<open>++boxIdx, ++linIdxBox\<close> included.\<close>

definition fillBody :: "Box \<Rightarrow> IntVect \<Rightarrow> IntVect \<Rightarrow> int \<Rightarrow> FillState \<Rightarrow> FillState" where
  "fillBody a_domain a_maxBoxSize numBox procIdx st =
     \<lparr> fs_boxes = (fs_boxes st)[fs_linIdxBox st := BoxEntry (fs_currBox st) procIdx],
       fs_currBox = nextBox a_domain a_maxBoxSize numBox (fs_currBox st),
       fs_linIdxBox = fs_linIdxBox st + 1 \<rparr>"

text \<open>
  The two nested loops: \<^verbatim>\<open>procIdx\<close> runs over \<open>0 .. numProc - 1\<close>, and for each the body
  runs \<^verbatim>\<open>boxPerProc\<close> times.  (Both counts are non-negative where the loops are reached
  with \<open>numProc \<ge> 1\<close>.)
\<close>

definition fillBoxes ::
  "Box \<Rightarrow> IntVect \<Rightarrow> IntVect \<Rightarrow> int \<Rightarrow> int \<Rightarrow> FillState \<Rightarrow> FillState" where
  "fillBoxes a_domain a_maxBoxSize numBox numProc boxPerProc st =
     fold (\<lambda>procIdx st. ((fillBody a_domain a_maxBoxSize numBox procIdx) ^^ nat boxPerProc) st)
          [0 .. numProc - 1] st"

text \<open>
  \<^verbatim>\<open>DisjointBoxLayout::define\<close>.  The static members \<^verbatim>\<open>s_numProc\<close> and \<^verbatim>\<open>s_procID\<close>
  are parameters (\<open>1\<close> and \<open>0\<close> without MPI, the communicator's size and rank with it).
\<close>

definition DisjointBoxLayout_define :: "int \<Rightarrow> int \<Rightarrow> Box \<Rightarrow> IntVect \<Rightarrow> error + DisjointBoxLayout" where
  "DisjointBoxLayout_define numProc procID a_domain a_maxBoxSize =
     (let domainSize = ivAdd (ivSub (hiVect a_domain) (loVect a_domain)) ivUnit in
      if iv0 a_maxBoxSize = 0 \<or> iv1 a_maxBoxSize = 0 \<or> iv2 a_maxBoxSize = 0
      then Inl DivideByZero
      else
      let numBox = ivDiv domainSize a_maxBoxSize in
      if ivMul numBox a_maxBoxSize \<noteq> domainSize then Inl UnevenPartition
      else
      let stride0 = 1;
          stride1 = stride0 * ivAt numBox 0;
          stride2 = stride1 * ivAt numBox 1;
          msize = stride2 * ivAt numBox 2 in
      if msize < 0 then Inl BadAlloc
      else
      let boxes = replicate (nat msize) BoxEntry_default in
      if numProc = 0 then Inl DivideByZero
      else
      let boxPerProc = msize sdiv numProc in
      if msize \<noteq> boxPerProc * numProc then Inl UnevenPartition
      else
      let currBox = Box (loVect a_domain)
                        (ivSub (ivAdd (loVect a_domain) a_maxBoxSize) ivUnit);
          st = fillBoxes a_domain a_maxBoxSize numBox numProc boxPerProc
                 \<lparr> fs_boxes = boxes, fs_currBox = currBox, fs_linIdxBox = 0 \<rparr>
      in Inr \<lparr> m_domain = a_domain,
               m_stride = IntVect stride0 stride1 stride2,
               m_numBox = numBox,
               m_size = msize,
               m_boxes = fs_boxes st,
               m_localIdxBeg = procID * boxPerProc,
               m_numLocalBox = boxPerProc \<rparr>)"

definition problemDomain :: "DisjointBoxLayout \<Rightarrow> Box" where
  "problemDomain dbl = m_domain dbl"

text \<open>
  \<^verbatim>\<open>operator[](const BoxIndex&)\<close> and \<^verbatim>\<open>proc(const BoxIndex&)\<close>: unchecked vector
  accesses at the global index.
\<close>

definition dblBox :: "DisjointBoxLayout \<Rightarrow> BoxIndex \<Rightarrow> Box" where
  "dblBox dbl a_bidx = entry_box (m_boxes dbl ! nat (globalIndex a_bidx))"

definition dblProc :: "DisjointBoxLayout \<Rightarrow> BoxIndex \<Rightarrow> int" where
  "dblProc dbl a_bidx = entry_proc (m_boxes dbl ! nat (globalIndex a_bidx))"

definition localSize :: "DisjointBoxLayout \<Rightarrow> int" where
  "localSize dbl = m_numLocalBox dbl"

definition linearNbrOffset :: "DisjointBoxLayout \<Rightarrow> IntVect \<Rightarrow> int" where
  "linearNbrOffset dbl a_nbrOffset =
     ivAt a_nbrOffset 0 * ivAt (m_stride dbl) 0
     + ivAt a_nbrOffset 1 * ivAt (m_stride dbl) 1
     + ivAt a_nbrOffset 2 * ivAt (m_stride dbl) 2"

definition localIdxBegin :: "DisjointBoxLayout \<Rightarrow> int" where
  "localIdxBegin dbl = m_localIdxBeg dbl"

definition localIdxEnd :: "DisjointBoxLayout \<Rightarrow> int" where
  "localIdxEnd dbl = m_localIdxBeg dbl + m_numLocalBox dbl"

lemma sdiv_nonneg_pos: "0 \<le> k \<Longrightarrow> 0 < l \<Longrightarrow> k sdiv l = k div (l::int)"
  by (cases "k = 0") (simp_all add: signed_divide_int_def)

lemma div_mult_eq_iff_mod: "(k div l) * l = k \<longleftrightarrow> k mod l = (0::int)"
  by (metis add.right_neutral add_diff_cancel_left' div_mult_mod_eq minus_div_mult_eq_mod)

text \<open>The outcome of \<^verbatim>\<open>define\<close> on a well-formed input, with the guards resolved.\<close>

lemma DisjointBoxLayout_define_cases:
  assumes ne: "\<not> isEmpty a_domain" and mb: "ivLe ivUnit a_maxBoxSize" and np: "1 \<le> numProc"
  defines "dims \<equiv> dimensions a_domain"
  defines "nb \<equiv> IntVect (iv0 dims div iv0 a_maxBoxSize) (iv1 dims div iv1 a_maxBoxSize)
                         (iv2 dims div iv2 a_maxBoxSize)"
  shows "DisjointBoxLayout_define numProc procID a_domain a_maxBoxSize =
     (if \<not> (iv0 dims mod iv0 a_maxBoxSize = 0 \<and> iv1 dims mod iv1 a_maxBoxSize = 0
            \<and> iv2 dims mod iv2 a_maxBoxSize = 0)
      then Inl UnevenPartition
      else if product nb mod numProc \<noteq> 0 then Inl UnevenPartition
      else Inr \<lparr> m_domain = a_domain,
                 m_stride = IntVect 1 (iv0 nb) (iv0 nb * iv1 nb),
                 m_numBox = nb,
                 m_size = product nb,
                 m_boxes = fs_boxes (fillBoxes a_domain a_maxBoxSize nb numProc (product nb div numProc)
                     \<lparr> fs_boxes = replicate (nat (product nb)) BoxEntry_default,
                       fs_currBox = Box (loVect a_domain)
                           (ivSub (ivAdd (loVect a_domain) a_maxBoxSize) ivUnit),
                       fs_linIdxBox = 0 \<rparr>),
                 m_localIdxBeg = procID * (product nb div numProc),
                 m_numLocalBox = product nb div numProc \<rparr>)"
proof -
  have dpos: "0 \<le> iv0 dims" "0 \<le> iv1 dims" "0 \<le> iv2 dims"
    using ne by (simp_all add: dims_def dimensions_def isEmpty_def ivLe_def ivAdd_def ivSub_def ivUnit_def)
  have mpos: "0 < iv0 a_maxBoxSize" "0 < iv1 a_maxBoxSize" "0 < iv2 a_maxBoxSize"
    using mb by (simp_all add: ivLe_def ivUnit_def)
  have nbeq: "ivDiv dims a_maxBoxSize = nb"
    using dpos mpos by (simp add: ivDiv_def nb_def sdiv_nonneg_pos)
  have nbpos: "0 \<le> iv0 nb" "0 \<le> iv1 nb" "0 \<le> iv2 nb"
    using dpos mpos by (simp_all add: nb_def pos_imp_zdiv_nonneg_iff)
  have szpos: "0 \<le> product nb"
    using nbpos by (simp add: product_def)
  have ev: "ivMul nb a_maxBoxSize = dims \<longleftrightarrow>
      (iv0 dims mod iv0 a_maxBoxSize = 0 \<and> iv1 dims mod iv1 a_maxBoxSize = 0
            \<and> iv2 dims mod iv2 a_maxBoxSize = 0)"
    by (cases dims) (simp add: ivMul_def nb_def div_mult_eq_iff_mod)
  have sd: "product nb sdiv numProc = product nb div numProc"
    using szpos np by (simp add: sdiv_nonneg_pos)
  have pe: "product nb = product nb div numProc * numProc \<longleftrightarrow> product nb mod numProc = 0"
    using div_mult_eq_iff_mod [of "product nb" numProc] by auto
  have sz: "1 * ivAt nb 0 * ivAt nb 1 * ivAt nb 2 = product nb"
    by (simp add: product_def ivAt_def)
  show ?thesis
    unfolding DisjointBoxLayout_define_def Let_def dims_def [symmetric]
    unfolding dimensions_def [symmetric] dims_def [symmetric] nbeq sz sd
    using mpos np szpos ev pe
    by (simp add: ivAt_def)
qed




section \<open>The lattice of boxes\<close>

text \<open>
  The box lattice: each box stands for one IntVect of \<^verbatim>\<open>ivDomain\<close>, the box
  \<^verbatim>\<open>Box(IntVect::Zero, m_numBox - IntVect::Unit)\<close> that the neighbour iterators build.
  \<open>latticeBox\<close> is the box the spec puts at a lattice position:
  ``\<open>lo_k = domain.lo + maxBoxSize \<cdot> index_k\<close>, \<open>hi_k = lo_k + maxBoxSize - 1\<close>''.
\<close>

definition ivDomain :: "IntVect \<Rightarrow> Box" where
  "ivDomain numBox = Box ivZero (ivSub numBox ivUnit)"

definition latticeBox :: "Box \<Rightarrow> IntVect \<Rightarrow> IntVect \<Rightarrow> Box" where
  "latticeBox a_domain a_maxBoxSize v =
     Box (ivAdd (loVect a_domain) (ivMul a_maxBoxSize v))
         (ivSub (ivAdd (ivAdd (loVect a_domain) (ivMul a_maxBoxSize v)) a_maxBoxSize) ivUnit)"

lemma lattice_1d:
  fixes m :: int
  assumes "0 < m"
  shows "(l \<le> l + m * x \<and> l + m * x + m - 1 \<le> l + n * m - 1) \<longleftrightarrow> (0 \<le> x \<and> x \<le> n - 1)"
proof -
  have "0 \<le> m * x \<longleftrightarrow> 0 \<le> x" using assms by (simp add: zero_le_mult_iff)
  moreover have "m * (x + 1) \<le> m * n \<longleftrightarrow> x + 1 \<le> n"
    using assms by (simp only: mult_le_cancel_left_pos)
  moreover have "m * x + m = m * (x + 1)" by (simp add: algebra_simps)
  ultimately show ?thesis by (simp add: mult.commute [of n m]) linarith
qed

text \<open>A layout's geometry is even when the domain is exactly \<open>numBox\<close> boxes of the maximum size.\<close>

definition evenGeometry :: "Box \<Rightarrow> IntVect \<Rightarrow> IntVect \<Rightarrow> bool" where
  "evenGeometry a_domain a_maxBoxSize numBox =
     (ivLe ivUnit a_maxBoxSize \<and> ivLe ivUnit numBox
      \<and> dimensions a_domain = ivMul numBox a_maxBoxSize)"

lemma containsBox_latticeBox:
  assumes "evenGeometry d M n"
  shows "containsBox d (latticeBox d M v) \<longleftrightarrow> containsIV (ivDomain n) v"
proof -
  obtain l0 l1 l2 h0 h1 h2 where d: "d = Box (IntVect l0 l1 l2) (IntVect h0 h1 h2)"
    by (metis Box.exhaust IntVect.exhaust)
  obtain m0 m1 m2 where M: "M = IntVect m0 m1 m2" by (cases M)
  obtain n0 n1 n2 where n: "n = IntVect n0 n1 n2" by (cases n)
  obtain x y z where v: "v = IntVect x y z" by (cases v)
  from assms have mp: "0 < m0" "0 < m1" "0 < m2"
    and h: "h0 = l0 + n0 * m0 - 1" "h1 = l1 + n1 * m1 - 1" "h2 = l2 + n2 * m2 - 1"
    by (auto simp: evenGeometry_def d M n ivLe_def ivUnit_def dimensions_def ivAdd_def ivSub_def ivMul_def)
  show ?thesis
    using lattice_1d [OF mp(1), of l0 x n0] lattice_1d [OF mp(2), of l1 y n1]
      lattice_1d [OF mp(3), of l2 z n2]
    unfolding d M n v h
    by (simp add: containsBox_def containsIV_def latticeBox_def ivDomain_def ivLe_def ivAdd_def
        ivSub_def ivMul_def ivUnit_def ivZero_def) blast
qed

lemma shiftDir_latticeBox:
  "shiftDir (latticeBox d M (IntVect x y z)) (k * ivAt M 0) 0 = latticeBox d M (IntVect (x + k) y z)"
  "shiftDir (latticeBox d M (IntVect x y z)) (k * ivAt M 1) 1 = latticeBox d M (IntVect x (y + k) z)"
  "shiftDir (latticeBox d M (IntVect x y z)) (k * ivAt M 2) 2 = latticeBox d M (IntVect x y (z + k))"
  by (simp_all add: shiftDir_def latticeBox_def ivAt_def ivSet_def ivAdd_def ivSub_def ivMul_def
      algebra_simps)

lemma nextBox_latticeBox:
  assumes eg: "evenGeometry d M n" and v: "containsIV (ivDomain n) v"
  shows "nextBox d M n (latticeBox d M v) =
         latticeBox d M (bit_current (BoxIterator_incr (BoxIterator v (ivDomain n))))"
proof -
  obtain n0 n1 n2 where n: "n = IntVect n0 n1 n2" by (cases n)
  obtain x y z where vv: "v = IntVect x y z" by (cases v)
  from v have le: "0 \<le> x" "x \<le> n0 - 1" "0 \<le> y" "y \<le> n1 - 1" "0 \<le> z" "z \<le> n2 - 1"
    by (simp_all add: n vv containsIV_def ivDomain_def ivLe_def ivZero_def ivSub_def ivUnit_def)
  note cb = containsBox_latticeBox [OF eg]
  have s0: "shiftDir (latticeBox d M (IntVect a b c)) (iv0 M) 0 = latticeBox d M (IntVect (a + 1) b c)"
    for a b c using shiftDir_latticeBox(1) [of d M a b c 1] by (simp add: ivAt_def)
  have s1: "shiftDir (latticeBox d M (IntVect a b c)) (iv1 M) (Suc 0) = latticeBox d M (IntVect a (b + 1) c)"
    for a b c using shiftDir_latticeBox(2) [of d M a b c 1] by (simp add: ivAt_def)
  have s2: "shiftDir (latticeBox d M (IntVect a b c)) (iv2 M) 2 = latticeBox d M (IntVect a b (c + 1))"
    for a b c using shiftDir_latticeBox(3) [of d M a b c 1] by (simp add: ivAt_def)
  have r0: "shiftDir (latticeBox d M (IntVect a b c)) (- (iv0 M * n0)) 0
      = latticeBox d M (IntVect (a - n0) b c)"
    for a b c using shiftDir_latticeBox(1) [of d M a b c "- n0"] by (simp add: ivAt_def mult.commute)
  have r1: "shiftDir (latticeBox d M (IntVect a b c)) (- (iv1 M * n1)) (Suc 0)
      = latticeBox d M (IntVect a (b - n1) c)"
    for a b c using shiftDir_latticeBox(2) [of d M a b c "- n1"] by (simp add: ivAt_def mult.commute)
  have inD: "containsIV (ivDomain (IntVect n0 n1 n2)) (IntVect a b c) \<longleftrightarrow>
      0 \<le> a \<and> a \<le> n0 - 1 \<and> 0 \<le> b \<and> b \<le> n1 - 1 \<and> 0 \<le> c \<and> c \<le> n2 - 1" for a b c
    by (auto simp: containsIV_def ivDomain_def ivLe_def ivZero_def ivSub_def ivUnit_def)
  have nb: "nextBox d M n (latticeBox d M (IntVect x y z)) =
      (if x < n0 - 1 then latticeBox d M (IntVect (x + 1) y z)
       else if y < n1 - 1 then latticeBox d M (IntVect (x + 1 - n0) (y + 1) z)
       else latticeBox d M (IntVect (x + 1 - n0) (y + 1 - n1) (z + 1)))"
    using le
    by (simp add: nextBox_def Let_def ivAt_def n s0 s1 s2 r0 r1 cb inD)
  have inc: "bit_current (BoxIterator_incr (BoxIterator (IntVect x y z) (ivDomain n))) =
      (if x < n0 - 1 then IntVect (x + 1) y z
       else if y < n1 - 1 then IntVect 0 (y + 1) z
       else IntVect 0 0 (z + 1))"
    using le
    by (simp add: BoxIterator_incr_def ivAt_def ivSet_def Let_def ivDomain_def n ivSub_def
        ivUnit_def ivZero_def)
  have "x + 1 - n0 = 0" if "\<not> x < n0 - 1" using that le by linarith
  moreover have "y + 1 - n1 = 0" if "\<not> y < n1 - 1" using that le by linarith
  ultimately show ?thesis
    unfolding vv nb inc by simp
qed

text \<open>The entry the layout holds at linear index \<open>k\<close>, in closed form.\<close>

definition latticeEntry :: "Box \<Rightarrow> IntVect \<Rightarrow> IntVect \<Rightarrow> nat \<Rightarrow> nat \<Rightarrow> BoxEntry" where
  "latticeEntry d M nb B k =
     BoxEntry (latticeBox d M (fortranCells (ivDomain nb) ! k)) (int (k div B))"

definition fillInv :: "Box \<Rightarrow> IntVect \<Rightarrow> IntVect \<Rightarrow> nat \<Rightarrow> nat \<Rightarrow> FillState \<Rightarrow> bool" where
  "fillInv d M nb B n st =
     (fs_linIdxBox st = n
      \<and> fs_currBox st = latticeBox d M (bit_current ((BoxIterator_incr ^^ n) (BoxIterator_new (ivDomain nb))))
      \<and> length (fs_boxes st) = length (fortranCells (ivDomain nb))
      \<and> (\<forall>k<n. fs_boxes st ! k = latticeEntry d M nb B k))"

lemma BoxIterator_funpow_box [simp]: "bit_box ((BoxIterator_incr ^^ n) it) = bit_box it"
  by (induction n) simp_all

lemma fillInv_step:
  assumes eg: "evenGeometry d M nb" and inv: "fillInv d M nb B n st"
    and n: "n < length (fortranCells (ivDomain nb))" and p: "p = int (n div B)"
  shows "fillInv d M nb B (Suc n) (fillBody d M nb p st)"
proof -
  let ?it = "(BoxIterator_incr ^^ n) (BoxIterator_new (ivDomain nb))"
  have ne: "\<not> isEmpty (ivDomain nb)"
    using eg by (simp add: evenGeometry_def isEmpty_def ivDomain_def ivLe_def ivZero_def ivSub_def ivUnit_def)
  have cells: "BoxIterator_cells (BoxIterator_new (ivDomain nb)) = fortranCells (ivDomain nb)"
    by (rule BoxIterator_cells_fortran [OF ne])
  from BoxIterator_cells_funpow [of n "BoxIterator_new (ivDomain nb)"] n cells
  have ok: "BoxIterator_ok ?it" and cur: "bit_current ?it = fortranCells (ivDomain nb) ! n"
    by simp_all
  have box: "bit_box ?it = ivDomain nb" by (simp add: BoxIterator_new_def)
  have iteq: "?it = BoxIterator (bit_current ?it) (ivDomain nb)"
    using box by (cases ?it) simp
  have inD: "containsIV (ivDomain nb) (bit_current ?it)"
    using ok box by (simp add: BoxIterator_ok_def)
  have nx: "nextBox d M nb (latticeBox d M (bit_current ?it)) =
        latticeBox d M (bit_current (BoxIterator_incr ?it))"
    using nextBox_latticeBox [OF eg inD] iteq by simp
  have b: "(fs_boxes st)[n := BoxEntry (latticeBox d M (bit_current ?it)) p] ! k = latticeEntry d M nb B k"
    if "k < Suc n" for k
  proof (cases "k = n")
    case True
    then show ?thesis using inv n p cur by (simp add: fillInv_def latticeEntry_def)
  next
    case False
    then show ?thesis using inv that by (simp add: fillInv_def)
  qed
  show ?thesis
    using inv nx b by (simp add: fillInv_def fillBody_def)
qed

lemma fillInv_inner:
  assumes eg: "evenGeometry d M nb" and inv: "fillInv d M nb B (q * B) st"
    and j: "j \<le> B" and n: "q * B + B \<le> length (fortranCells (ivDomain nb))"
  shows "fillInv d M nb B (q * B + j) (((fillBody d M nb (int q)) ^^ j) st)"
  using j
proof (induction j)
  case 0
  then show ?case using inv by simp
next
  case (Suc j)
  then have IH: "fillInv d M nb B (q * B + j) (((fillBody d M nb (int q)) ^^ j) st)" by simp
  have lt: "q * B + j < length (fortranCells (ivDomain nb))" using Suc.prems n by simp
  have "(q * B + j) div B = q" using Suc.prems by simp
  then have "int q = int ((q * B + j) div B)" by simp
  from fillInv_step [OF eg IH lt this] show ?case by simp
qed

lemma fillInv_outer:
  assumes eg: "evenGeometry d M nb" and inv: "fillInv d M nb B 0 st"
    and q: "q * B \<le> length (fortranCells (ivDomain nb))"
  shows "fillInv d M nb B (q * B)
           (fold (\<lambda>procIdx st. ((fillBody d M nb procIdx) ^^ B) st) [0 .. int q - 1] st)"
  using q
proof (induction q)
  case 0
  then show ?case using inv by simp
next
  case (Suc q)
  have up: "[0 .. int (Suc q) - 1] = [0 .. int q - 1] @ [int q]"
    using upto_rec2 [of 0 "int q"] by simp
  have IH: "fillInv d M nb B (q * B)
           (fold (\<lambda>procIdx st. ((fillBody d M nb procIdx) ^^ B) st) [0 .. int q - 1] st)"
    using Suc by simp
  have "q * B + B \<le> length (fortranCells (ivDomain nb))" using Suc.prems by (simp add: add.commute)
  from fillInv_inner [OF eg IH order_refl this] show ?case
    unfolding up by (simp add: add.commute)
qed

lemma length_fortranCells_ivDomain:
  assumes "ivLe ivUnit nb"
  shows "length (fortranCells (ivDomain nb)) = nat (product nb)"
proof -
  have ne: "\<not> isEmpty (ivDomain nb)"
    using assms by (simp add: isEmpty_def ivDomain_def ivLe_def ivZero_def ivSub_def ivUnit_def)
  have "boxSize (ivDomain nb) = product nb"
    by (cases nb) (simp add: boxSize_def dimensions_def ivDomain_def ivAdd_def ivSub_def ivUnit_def ivZero_def)
  then show ?thesis using length_fortranCells_size [OF ne] by simp
qed

lemma fillBoxes_closed_form:
  assumes eg: "evenGeometry d M nb" and np: "1 \<le> numProc" and bp: "0 \<le> boxPerProc"
    and sz: "product nb = boxPerProc * numProc"
  shows "fs_boxes (fillBoxes d M nb numProc boxPerProc
            \<lparr> fs_boxes = replicate (nat (product nb)) BoxEntry_default,
              fs_currBox = Box (loVect d) (ivSub (ivAdd (loVect d) M) ivUnit),
              fs_linIdxBox = 0 \<rparr>)
         = map (latticeEntry d M nb (nat boxPerProc)) [0 ..< nat (product nb)]"
proof -
  let ?st = "\<lparr> fs_boxes = replicate (nat (product nb)) BoxEntry_default,
              fs_currBox = Box (loVect d) (ivSub (ivAdd (loVect d) M) ivUnit),
              fs_linIdxBox = 0 \<rparr>"
  let ?B = "nat boxPerProc" and ?Q = "nat numProc"
  have nbp: "ivLe ivUnit nb" using eg by (simp add: evenGeometry_def)
  have len: "length (fortranCells (ivDomain nb)) = nat (product nb)"
    by (rule length_fortranCells_ivDomain [OF nbp])
  have first: "latticeBox d M (loVect (ivDomain nb)) = Box (loVect d) (ivSub (ivAdd (loVect d) M) ivUnit)"
    by (cases M; cases "loVect d")
       (simp add: latticeBox_def ivDomain_def ivZero_def ivMul_def ivAdd_def ivSub_def)
  have inv0: "fillInv d M nb ?B 0 ?st"
    by (simp add: fillInv_def len BoxIterator_new_def first)
  have QB: "?Q * ?B = nat (product nb)"
    using np bp sz by (simp add: nat_mult_distrib mult.commute)
  have up: "[0 .. numProc - 1] = [0 .. int ?Q - 1]" using np by simp
  have "fillInv d M nb ?B (?Q * ?B) (fillBoxes d M nb numProc boxPerProc ?st)"
    unfolding fillBoxes_def up
    by (rule fillInv_outer [OF eg inv0]) (simp add: QB len)
  then have "length (fs_boxes (fillBoxes d M nb numProc boxPerProc ?st)) = nat (product nb)"
    and "\<forall>k < nat (product nb). fs_boxes (fillBoxes d M nb numProc boxPerProc ?st) ! k
           = latticeEntry d M nb ?B k"
    unfolding QB by (simp_all add: fillInv_def len)
  then show ?thesis
    by (intro nth_equalityI) simp_all
qed

text \<open>What a successful \<^verbatim>\<open>define\<close> on a well-formed input has built.\<close>

lemma DisjointBoxLayout_define_Inr:
  assumes ne: "\<not> isEmpty d" and mb: "ivLe ivUnit M" and np: "1 \<le> numProc"
    and ok: "DisjointBoxLayout_define numProc procID d M = Inr dbl"
  shows "evenGeometry d M (m_numBox dbl)"
    and "m_domain dbl = d"
    and "m_stride dbl = IntVect 1 (iv0 (m_numBox dbl)) (iv0 (m_numBox dbl) * iv1 (m_numBox dbl))"
    and "m_size dbl = product (m_numBox dbl)"
    and "m_size dbl = m_numLocalBox dbl * numProc"
    and "1 \<le> m_numLocalBox dbl"
    and "m_localIdxBeg dbl = procID * m_numLocalBox dbl"
    and "m_boxes dbl = map (latticeEntry d M (m_numBox dbl) (nat (m_numLocalBox dbl)))
                           [0 ..< nat (m_size dbl)]"
proof -
  define dims where "dims = dimensions d"
  define nb where "nb = IntVect (iv0 dims div iv0 M) (iv1 dims div iv1 M) (iv2 dims div iv2 M)"
  note c = DisjointBoxLayout_define_cases [OF ne mb np, of procID, folded dims_def, folded nb_def]
  from ok c have ev: "iv0 dims mod iv0 M = 0" "iv1 dims mod iv1 M = 0" "iv2 dims mod iv2 M = 0"
    and pm: "product nb mod numProc = 0"
    by (auto split: if_splits)
  from ok c ev pm have dbl: "dbl = \<lparr> m_domain = d,
                 m_stride = IntVect 1 (iv0 nb) (iv0 nb * iv1 nb),
                 m_numBox = nb,
                 m_size = product nb,
                 m_boxes = fs_boxes (fillBoxes d M nb numProc (product nb div numProc)
                     \<lparr> fs_boxes = replicate (nat (product nb)) BoxEntry_default,
                       fs_currBox = Box (loVect d) (ivSub (ivAdd (loVect d) M) ivUnit),
                       fs_linIdxBox = 0 \<rparr>),
                 m_localIdxBeg = procID * (product nb div numProc),
                 m_numLocalBox = product nb div numProc \<rparr>"
    by simp
  have dpos: "1 \<le> iv0 dims" "1 \<le> iv1 dims" "1 \<le> iv2 dims"
    using ne by (simp_all add: dims_def dimensions_def isEmpty_def ivLe_def ivAdd_def ivSub_def ivUnit_def)
  have mpos: "0 < iv0 M" "0 < iv1 M" "0 < iv2 M"
    using mb by (simp_all add: ivLe_def ivUnit_def)
  have mul: "iv0 nb * iv0 M = iv0 dims" "iv1 nb * iv1 M = iv1 dims" "iv2 nb * iv2 M = iv2 dims"
    using ev by (simp_all add: nb_def div_mult_eq_iff_mod)
  have nbpos: "1 \<le> iv0 nb" "1 \<le> iv1 nb" "1 \<le> iv2 nb"
  proof -
    have "0 < iv0 nb * iv0 M" "0 < iv1 nb * iv1 M" "0 < iv2 nb * iv2 M"
      using mul dpos by simp_all
    then have "0 < iv0 nb" "0 < iv1 nb" "0 < iv2 nb"
      using mpos by (simp_all add: zero_less_mult_iff)
    then show "1 \<le> iv0 nb" "1 \<le> iv1 nb" "1 \<le> iv2 nb" by simp_all
  qed
  have eg: "evenGeometry d M nb"
    using mb nbpos mul
    by (cases dims) (simp add: evenGeometry_def dims_def [symmetric] ivMul_def ivLe_def ivUnit_def)
  have ppos: "1 \<le> product nb"
  proof -
    have "0 < iv0 nb * iv1 nb * iv2 nb" using nbpos by (intro mult_pos_pos) simp_all
    then show ?thesis by (simp add: product_def)
  qed
  have sz: "product nb = product nb div numProc * numProc"
    using pm div_mult_eq_iff_mod [of "product nb" numProc] by simp
  have bp: "1 \<le> product nb div numProc"
  proof -
    have "0 < product nb div numProc * numProc" using sz ppos by simp
    then have "0 < product nb div numProc" using np by (simp add: zero_less_mult_iff)
    then show ?thesis by simp
  qed
  have bp0: "0 \<le> product nb div numProc" using bp by simp
  show "evenGeometry d M (m_numBox dbl)" using eg by (simp add: dbl)
  show "m_domain dbl = d" by (simp add: dbl)
  show "m_stride dbl = IntVect 1 (iv0 (m_numBox dbl)) (iv0 (m_numBox dbl) * iv1 (m_numBox dbl))"
    by (simp add: dbl)
  show "m_size dbl = product (m_numBox dbl)" by (simp add: dbl)
  show "m_size dbl = m_numLocalBox dbl * numProc" using sz by (simp add: dbl)
  show "1 \<le> m_numLocalBox dbl" using bp by (simp add: dbl)
  show "m_localIdxBeg dbl = procID * m_numLocalBox dbl" by (simp add: dbl)
  show "m_boxes dbl = map (latticeEntry d M (m_numBox dbl) (nat (m_numLocalBox dbl)))
                           [0 ..< nat (m_size dbl)]"
    using fillBoxes_closed_form [OF eg np bp0 sz] by (simp add: dbl)
qed

subsection \<open>Partition of the domain\<close>

lemma cells_intersect: "cells (intersect a b) = cells a \<inter> cells b"
  by (auto simp: cells_def containsIV_def intersect_def ivLe_def ivMax_def ivMin_def)

lemma isEmpty_cells: "isEmpty b \<longleftrightarrow> cells b = {}"
proof
  assume "isEmpty b"
  then show "cells b = {}"
    by (auto simp: isEmpty_def cells_def containsIV_def ivLe_def)
next
  assume e: "cells b = {}"
  show "isEmpty b"
  proof (rule ccontr)
    assume "\<not> isEmpty b"
    then have "loVect b \<in> cells b"
      by (simp add: isEmpty_def cells_def containsIV_def ivLe_def)
    with e show False by simp
  qed
qed


lemma disjoint_1d:
  fixes m :: int
  assumes "0 < m" and "i \<noteq> j"
  shows "\<not> (max (l + m * i) (l + m * j) \<le> min (l + m * i + m - 1) (l + m * j + m - 1))"
proof -
  have *: "m * a + m \<le> m * b" if "a < b" for a b
  proof -
    have "m * (a + 1) \<le> m * b" using assms that by (simp add: mult_le_cancel_left_pos)
    then show ?thesis by (simp add: algebra_simps)
  qed
  from assms(2) consider "i < j" | "j < i" by linarith
  then show ?thesis
  proof cases
    case 1 with * [of i j] show ?thesis by simp
  next
    case 2 with * [of j i] show ?thesis by simp
  qed
qed


lemma latticeBox_disjoint:
  assumes "ivLe ivUnit M" and "v \<noteq> w"
  shows "isEmpty (intersect (latticeBox d M v) (latticeBox d M w))"
proof -
  obtain l0 l1 l2 where d: "loVect d = IntVect l0 l1 l2" by (cases "loVect d")
  obtain m0 m1 m2 where M: "M = IntVect m0 m1 m2" by (cases M)
  obtain i j k where v: "v = IntVect i j k" by (cases v)
  obtain i' j' k' where w: "w = IntVect i' j' k'" by (cases w)
  from assms have mp: "0 < m0" "0 < m1" "0 < m2" by (simp_all add: M ivLe_def ivUnit_def)
  from assms(2) consider "i \<noteq> i'" | "j \<noteq> j'" | "k \<noteq> k'" by (auto simp: v w)
  then show ?thesis
  proof cases
    case 1
    from disjoint_1d [OF mp(1) this, of l0] show ?thesis
      by (simp add: isEmpty_def intersect_def latticeBox_def d M v w ivLe_def ivMax_def ivMin_def
          ivAdd_def ivSub_def ivMul_def ivUnit_def)
  next
    case 2
    from disjoint_1d [OF mp(2) this, of l1] show ?thesis
      by (simp add: isEmpty_def intersect_def latticeBox_def d M v w ivLe_def ivMax_def ivMin_def
          ivAdd_def ivSub_def ivMul_def ivUnit_def)
  next
    case 3
    from disjoint_1d [OF mp(3) this, of l2] show ?thesis
      by (simp add: isEmpty_def intersect_def latticeBox_def d M v w ivLe_def ivMax_def ivMin_def
          ivAdd_def ivSub_def ivMul_def ivUnit_def)
  qed
qed




section \<open>LayoutIterator.H\<close>

record LayoutIterator =
  it_disjointBoxLayout :: DisjointBoxLayout
  it_current :: int
  it_size :: int

definition LayoutIterator_new :: "DisjointBoxLayout \<Rightarrow> LayoutIterator" where
  "LayoutIterator_new a_dbl =
     \<lparr> it_disjointBoxLayout = a_dbl, it_current = 0, it_size = m_size a_dbl \<rparr>"

text \<open>\<^verbatim>\<open>operator*\<close>\<close>

definition LayoutIterator_deref :: "'a LayoutIterator_scheme \<Rightarrow> BoxIndex" where
  "LayoutIterator_deref it =
     BoxIndex (it_current it) (it_current it - localIdxBegin (it_disjointBoxLayout it))"

definition LayoutIterator_incr :: "LayoutIterator \<Rightarrow> LayoutIterator" where
  "LayoutIterator_incr it = it \<lparr> it_current := it_current it + 1 \<rparr>"

definition LayoutIterator_ok :: "LayoutIterator \<Rightarrow> bool" where
  "LayoutIterator_ok it = (it_current it < it_size it)"

text \<open>
  The loop \<^verbatim>\<open>for (...; it.ok(); ++it)\<close> over a LayoutIterator or a DataIterator: the
  BoxIndex values \<^verbatim>\<open>*it\<close> it yields, in order.
\<close>

function LayoutIterator_indices :: "LayoutIterator \<Rightarrow> BoxIndex list" where
  "LayoutIterator_indices it =
     (if LayoutIterator_ok it
      then LayoutIterator_deref it # LayoutIterator_indices (LayoutIterator_incr it)
      else [])"
  by pat_completeness auto
termination
  by (relation "measure (\<lambda>it. nat (it_size it - it_current it))")
     (simp_all add: LayoutIterator_ok_def LayoutIterator_incr_def)

declare LayoutIterator_indices.simps [simp del]

text \<open>\<^verbatim>\<open>DataIterator(const DisjointBoxLayout&)\<close>: the same iterator over the local range.\<close>

definition DataIterator_new :: "DisjointBoxLayout \<Rightarrow> LayoutIterator" where
  "DataIterator_new a_dbl =
     (LayoutIterator_new a_dbl) \<lparr> it_size := localIdxEnd a_dbl, it_current := localIdxBegin a_dbl \<rparr>"

lemma LayoutIterator_indices_eq:
  "LayoutIterator_indices it =
     map (\<lambda>g. BoxIndex g (g - localIdxBegin (it_disjointBoxLayout it)))
         [it_current it .. it_size it - 1]"
proof (induction it rule: LayoutIterator_indices.induct)
  case (1 it)
  show ?case
  proof (cases "LayoutIterator_ok it")
    case True
    then have "[it_current it .. it_size it - 1] = it_current it # [it_current it + 1 .. it_size it - 1]"
      by (simp add: LayoutIterator_ok_def upto_rec1)
    then show ?thesis
      using "1.IH" [OF True] True
      by (subst LayoutIterator_indices.simps)
         (simp add: LayoutIterator_deref_def LayoutIterator_incr_def)
  next
    case False
    then show ?thesis
      by (subst LayoutIterator_indices.simps) (simp add: LayoutIterator_ok_def)
  qed
qed

lemma latticeEntry_proc_iff:
  assumes "0 < B"
  shows "entry_proc (latticeEntry d M nb B k) = int p \<longleftrightarrow> p * B \<le> k \<and> k < p * B + B"
proof -
  have "k div B = p \<longleftrightarrow> p * B \<le> k \<and> k < p * B + B"
    using assms by (metis div_nat_eqI add.commute less_mult_imp_div_less mult.commute
        div_less_iff_less_mult le_div_geq less_eq_div_iff_mult_less_eq not_less mult_Suc Suc_leI
        div_times_less_eq_dividend dividend_less_div_times)
  then show ?thesis by (simp add: latticeEntry_def)
qed


lemma dblProc_owner_iff:
  assumes ne: "\<not> isEmpty d" and mb: "ivLe ivUnit M" and np: "1 \<le> numProc"
    and p0: "0 \<le> p"
    and ok: "DisjointBoxLayout_define numProc procID d M = Inr dbl"
    and g: "0 \<le> g" "g < m_size dbl"
  shows "dblProc dbl (BoxIndex g l) = p \<longleftrightarrow>
         p * m_numLocalBox dbl \<le> g \<and> g < p * m_numLocalBox dbl + m_numLocalBox dbl"
proof -
  note d = DisjointBoxLayout_define_Inr [OF ne mb np ok]
  let ?B = "nat (m_numLocalBox dbl)"
  have B: "0 < ?B" "int ?B = m_numLocalBox dbl" using d(6) by simp_all
  have gl: "nat g < nat (m_size dbl)" using g by simp
  have "dblProc dbl (BoxIndex g l) = entry_proc (latticeEntry d M (m_numBox dbl) ?B (nat g))"
    using gl by (simp add: dblProc_def d(8))
  also have "\<dots> = int (nat p) \<longleftrightarrow> nat p * ?B \<le> nat g \<and> nat g < nat p * ?B + ?B"
    by (rule latticeEntry_proc_iff [OF B(1)])
  also have "\<dots> \<longleftrightarrow> int (nat p * ?B) \<le> int (nat g) \<and> int (nat g) < int (nat p * ?B + ?B)"
    by (simp only: of_nat_le_iff of_nat_less_iff)
  also have "\<dots> \<longleftrightarrow> p * m_numLocalBox dbl \<le> g \<and> g < p * m_numLocalBox dbl + m_numLocalBox dbl"
    using p0 g(1) B(2) by simp
  finally show ?thesis using p0 by simp
qed

text \<open>
  C8, as the code has it.  A LayoutIterator yields, for every global index \<open>g\<close> of the
  layout in order, the BoxIndex \<open>(g, g - localIdxBegin)\<close>.  For a box owned by this process
  the local index is its position within the owned range, \<open>0 \<le> localIndex < localSize\<close>;
  for a box of another process it is the same difference, which lies outside that range (it
  is not replaced by \<open>-1\<close>).
\<close>

theorem LayoutIterator_localIndex_is_offset:
  assumes "\<not> isEmpty a_domain" and "ivLe ivUnit a_maxBoxSize" and "1 \<le> numProc"
    and "0 \<le> procID" and "procID < numProc"
    and "DisjointBoxLayout_define numProc procID a_domain a_maxBoxSize = Inr dbl"
  shows "LayoutIterator_indices (LayoutIterator_new dbl)
           = map (\<lambda>g. BoxIndex g (g - localIdxBegin dbl)) [0 .. m_size dbl - 1]
       \<and> (\<forall>bi \<in> set (LayoutIterator_indices (LayoutIterator_new dbl)).
            localIndex bi = globalIndex bi - localIdxBegin dbl
            \<and> (dblProc dbl bi = procID \<longleftrightarrow> 0 \<le> localIndex bi \<and> localIndex bi < localSize dbl))"
proof -
  note d = DisjointBoxLayout_define_Inr [OF assms(1,2,3,6)]
  have eq: "LayoutIterator_indices (LayoutIterator_new dbl)
           = map (\<lambda>g. BoxIndex g (g - localIdxBegin dbl)) [0 .. m_size dbl - 1]"
    by (simp add: LayoutIterator_indices_eq LayoutIterator_new_def)
  have "dblProc dbl (BoxIndex g (g - localIdxBegin dbl)) = procID \<longleftrightarrow>
        0 \<le> g - localIdxBegin dbl \<and> g - localIdxBegin dbl < localSize dbl"
    if "0 \<le> g" "g \<le> m_size dbl - 1" for g
    using dblProc_owner_iff [OF assms(1,2,3,4,6), of g "g - localIdxBegin dbl"] that d(7)
    by (simp add: localIdxBegin_def localSize_def) linarith
  then show ?thesis unfolding eq by auto
qed

lemma define_example_2procs:
  "DisjointBoxLayout_define 2 0 (Box (IntVect 0 0 0) (IntVect 1 0 0)) (IntVect 1 1 1) =
     Inr \<lparr> m_domain = Box (IntVect 0 0 0) (IntVect 1 0 0), m_stride = IntVect 1 2 2,
           m_numBox = IntVect 2 1 1, m_size = 2,
           m_boxes = [BoxEntry (Box (IntVect 0 0 0) (IntVect 0 0 0)) 0,
                      BoxEntry (Box (IntVect 1 0 0) (IntVect 1 0 0)) 1],
           m_localIdxBeg = 0, m_numLocalBox = 1 \<rparr>"
  by code_simp

theorem LayoutIterator_localIndex_is_offset_witness:
  "DisjointBoxLayout_define 2 0 (Box (IntVect 0 0 0) (IntVect 1 0 0)) (IntVect 1 1 1) =
     Inr \<lparr> m_domain = Box (IntVect 0 0 0) (IntVect 1 0 0), m_stride = IntVect 1 2 2,
           m_numBox = IntVect 2 1 1, m_size = 2,
           m_boxes = [BoxEntry (Box (IntVect 0 0 0) (IntVect 0 0 0)) 0,
                      BoxEntry (Box (IntVect 1 0 0) (IntVect 1 0 0)) 1],
           m_localIdxBeg = 0, m_numLocalBox = 1 \<rparr>
   \<and> LayoutIterator_indices (LayoutIterator_new
         \<lparr> m_domain = Box (IntVect 0 0 0) (IntVect 1 0 0), m_stride = IntVect 1 2 2,
           m_numBox = IntVect 2 1 1, m_size = 2,
           m_boxes = [BoxEntry (Box (IntVect 0 0 0) (IntVect 0 0 0)) 0,
                      BoxEntry (Box (IntVect 1 0 0) (IntVect 1 0 0)) 1],
           m_localIdxBeg = 0, m_numLocalBox = 1 \<rparr>)
       = [BoxIndex 0 0, BoxIndex 1 1]"
proof -
  have ne: "\<not> isEmpty (Box (IntVect 0 0 0) (IntVect 1 0 0))" by (simp add: isEmpty_def ivLe_def)
  have mb: "ivLe ivUnit (IntVect 1 1 1)" by (simp add: ivLe_def ivUnit_def)
  have up: "[0 .. (1::int)] = [0, 1]" by (simp add: upto.simps)
  from LayoutIterator_localIndex_is_offset [OF ne mb _ _ _ define_example_2procs]
  show ?thesis
    using define_example_2procs by (simp add: localIdxBegin_def up)
qed

text \<open>
  C8 as stated fails: on process 0 of 2, the iterator over a layout of two boxes yields
  \<open>(1, 1)\<close> for the second box, which process 1 owns; its local index is 1, not \<open>-1\<close>.
\<close>

theorem LayoutIterator_localIndex_counterexample:
  "LayoutIterator_indices (LayoutIterator_new
         \<lparr> m_domain = Box (IntVect 0 0 0) (IntVect 1 0 0), m_stride = IntVect 1 2 2,
           m_numBox = IntVect 2 1 1, m_size = 2,
           m_boxes = [BoxEntry (Box (IntVect 0 0 0) (IntVect 0 0 0)) 0,
                      BoxEntry (Box (IntVect 1 0 0) (IntVect 1 0 0)) 1],
           m_localIdxBeg = 0, m_numLocalBox = 1 \<rparr>) ! 1 = BoxIndex 1 1
   \<and> dblProc \<lparr> m_domain = Box (IntVect 0 0 0) (IntVect 1 0 0), m_stride = IntVect 1 2 2,
           m_numBox = IntVect 2 1 1, m_size = 2,
           m_boxes = [BoxEntry (Box (IntVect 0 0 0) (IntVect 0 0 0)) 0,
                      BoxEntry (Box (IntVect 1 0 0) (IntVect 1 0 0)) 1],
           m_localIdxBeg = 0, m_numLocalBox = 1 \<rparr> (BoxIndex 1 1) = 1
   \<and> localIndex (BoxIndex 1 1) \<noteq> - 1
   \<and> DisjointBoxLayout_define 2 0 (Box (IntVect 0 0 0) (IntVect 1 0 0)) (IntVect 1 1 1) =
     Inr \<lparr> m_domain = Box (IntVect 0 0 0) (IntVect 1 0 0), m_stride = IntVect 1 2 2,
           m_numBox = IntVect 2 1 1, m_size = 2,
           m_boxes = [BoxEntry (Box (IntVect 0 0 0) (IntVect 0 0 0)) 0,
                      BoxEntry (Box (IntVect 1 0 0) (IntVect 1 0 0)) 1],
           m_localIdxBeg = 0, m_numLocalBox = 1 \<rparr>"
proof -
  have up: "[0 .. (1::int)] = [0, 1]" by (simp add: upto.simps)
  show ?thesis
    using define_example_2procs
    by (simp add: LayoutIterator_indices_eq LayoutIterator_new_def localIdxBegin_def up dblProc_def)
qed

subsection \<open>Trimming and periodic masks\<close>

definition TrimCenter :: "32 word" where "TrimCenter = push_bit 0 1"
definition TrimFace :: "32 word" where "TrimFace = push_bit 1 1"
definition TrimEdge :: "32 word" where "TrimEdge = push_bit 2 1"
definition TrimCorner :: "32 word" where "TrimCorner = push_bit 3 1"

definition PeriodicX :: "32 word" where "PeriodicX = push_bit 0 1"
definition PeriodicY :: "32 word" where "PeriodicY = push_bit 1 1"
definition PeriodicZ :: "32 word" where "PeriodicZ = push_bit 2 1"

text \<open>The test \<^verbatim>\<open>(1 << m_nbrOffset->norm1()) & m_trim\<close>.\<close>

definition trimmed :: "32 word \<Rightarrow> IntVect \<Rightarrow> bool" where
  "trimmed m_trim v = (push_bit (nat (norm1 v)) 1 AND m_trim \<noteq> 0)"

text \<open>
  The loop \<^verbatim>\<open>while (m_nbrOffset.ok() && cond(*m_nbrOffset)) ++m_nbrOffset;\<close> that both
  neighbour iterators use to step over the offsets they do not yield.
\<close>

function BoxIterator_skipWhile :: "(IntVect \<Rightarrow> bool) \<Rightarrow> BoxIterator \<Rightarrow> BoxIterator" where
  "BoxIterator_skipWhile cond it =
     (if BoxIterator_ok it \<and> cond (bit_current it)
      then BoxIterator_skipWhile cond (BoxIterator_incr it)
      else it)"
  by pat_completeness auto
termination
proof (relation "measure (\<lambda>(cond, it). BoxIterator_remaining it)")
  show "wf (measure (\<lambda>(cond, it). BoxIterator_remaining it))" by simp
next
  fix cond :: "IntVect \<Rightarrow> bool" and it
  assume "BoxIterator_ok it \<and> cond (bit_current it)"
  then show "((cond, BoxIterator_incr it), (cond, it)) \<in> measure (\<lambda>(cond, it). BoxIterator_remaining it)"
    using BoxIterator_incr_remaining [of it] by simp
qed

declare BoxIterator_skipWhile.simps [simp del]

lemma BoxIterator_skipWhile_remaining:
  "BoxIterator_remaining (BoxIterator_skipWhile cond it) \<le> BoxIterator_remaining it"
proof (induction cond it rule: BoxIterator_skipWhile.induct)
  case (1 cond it)
  show ?case
  proof (cases "BoxIterator_ok it \<and> cond (bit_current it)")
    case True
    then have "BoxIterator_skipWhile cond it = BoxIterator_skipWhile cond (BoxIterator_incr it)"
      by (subst BoxIterator_skipWhile.simps) simp
    then show ?thesis
      using "1.IH" [OF True] BoxIterator_incr_remaining [of it] True by simp
  next
    case False
    then have "BoxIterator_skipWhile cond it = it"
      by (subst BoxIterator_skipWhile.simps) auto
    then show ?thesis by simp
  qed
qed

subsection \<open>NeighborIterator\<close>

record NeighborIterator = LayoutIterator +
  nit_nbrOffset :: BoxIterator
  nit_base :: int
  nit_trim :: "32 word"

text \<open>
  The lattice position of the box a LayoutIterator points at, computed from its global index
  as both neighbour iterators do (\<^verbatim>\<open>D_INVTERM\<close>: component 2 first).
\<close>

definition ivBaseOf :: "IntVect \<Rightarrow> int \<Rightarrow> IntVect" where
  "ivBaseOf stride linearIdx =
     (let ivBase = ivDefault;
          ivBase = ivSet ivBase 2 (linearIdx sdiv ivAt stride 2);
          linearIdx = linearIdx - ivAt stride 2 * ivAt ivBase 2;
          ivBase = ivSet ivBase 1 (linearIdx sdiv ivAt stride 1);
          linearIdx = linearIdx - ivAt stride 1 * ivAt ivBase 1;
          ivBase = ivSet ivBase 0 linearIdx
      in ivBase)"

definition NeighborIterator_new ::
  "'a LayoutIterator_scheme \<Rightarrow> 32 word \<Rightarrow> Box \<Rightarrow> NeighborIterator" where
  "NeighborIterator_new a_lit a_trim a_nbr =
     (let dbl = it_disjointBoxLayout a_lit;
          m_base = it_current a_lit;
          m_trim = a_trim OR TrimCenter;
          ivDomain = Box ivZero (ivSub (m_numBox dbl) ivUnit);
          ivBase = ivBaseOf (m_stride dbl) (globalIndex (LayoutIterator_deref a_lit));
          ivDomain = shift ivDomain (ivNeg ivBase);
          a_nbr = intersect a_nbr ivDomain;
          m_nbrOffset = BoxIterator_skipWhile (trimmed m_trim) (BoxIterator_new a_nbr)
      in \<lparr> it_disjointBoxLayout = dbl,
           it_current = m_base + linearNbrOffset dbl (bit_current m_nbrOffset),
           it_size = it_size a_lit,
           nit_nbrOffset = m_nbrOffset, nit_base = m_base, nit_trim = m_trim \<rparr>)"

text \<open>\<^verbatim>\<open>NeighborIterator::operator++\<close>\<close>

definition NeighborIterator_incr :: "NeighborIterator \<Rightarrow> NeighborIterator" where
  "NeighborIterator_incr it =
     (let m_nbrOffset = BoxIterator_skipWhile (trimmed (nit_trim it))
                          (BoxIterator_incr (nit_nbrOffset it))
      in it \<lparr> nit_nbrOffset := m_nbrOffset,
              it_current := nit_base it
                 + linearNbrOffset (it_disjointBoxLayout it) (bit_current m_nbrOffset) \<rparr>)"

definition NeighborIterator_ok :: "NeighborIterator \<Rightarrow> bool" where
  "NeighborIterator_ok it = BoxIterator_ok (nit_nbrOffset it)"

definition NeighborIterator_nbrDir :: "NeighborIterator \<Rightarrow> IntVect" where
  "NeighborIterator_nbrDir it = bit_current (nit_nbrOffset it)"

text \<open>
  The loop \<^verbatim>\<open>for (NeighborIterator nbrit(...); nbrit.ok(); ++nbrit)\<close>: the iterator states
  the body sees, in order.
\<close>

function NeighborIterator_states :: "NeighborIterator \<Rightarrow> NeighborIterator list" where
  "NeighborIterator_states it =
     (if NeighborIterator_ok it then it # NeighborIterator_states (NeighborIterator_incr it)
      else [])"
  by pat_completeness auto
termination
proof (relation "measure (\<lambda>it. BoxIterator_remaining (nit_nbrOffset it))")
  show "wf (measure (\<lambda>it. BoxIterator_remaining (nit_nbrOffset it)))" by simp
next
  fix it assume ok: "NeighborIterator_ok it"
  have "BoxIterator_remaining (nit_nbrOffset (NeighborIterator_incr it))
        \<le> BoxIterator_remaining (BoxIterator_incr (nit_nbrOffset it))"
    by (simp add: NeighborIterator_incr_def Let_def BoxIterator_skipWhile_remaining)
  then show "(NeighborIterator_incr it, it) \<in> measure (\<lambda>it. BoxIterator_remaining (nit_nbrOffset it))"
    using BoxIterator_incr_remaining [of "nit_nbrOffset it"] ok
    by (simp add: NeighborIterator_ok_def)
qed

declare NeighborIterator_states.simps [simp del]

lemma trimmed_iff_bit: "trimmed m_trim v \<longleftrightarrow> bit m_trim (nat (norm1 v))"
  by (simp add: trimmed_def bit_iff_and_push_bit_not_eq_0 and.commute)

lemma norm1_eq_0_iff: "norm1 v = 0 \<longleftrightarrow> v = ivZero"
  by (cases v) (auto simp: norm1_def ivZero_def)

lemma trimmed_TrimCenter:
  "trimmed (a_trim OR TrimCenter) v \<longleftrightarrow> bit a_trim (nat (norm1 v)) \<or> v = ivZero"
proof -
  have "0 \<le> norm1 v" by (simp add: norm1_def)
  then have "nat (norm1 v) = 0 \<longleftrightarrow> v = ivZero"
    using norm1_eq_0_iff [of v] by simp
  then show ?thesis
    by (simp add: trimmed_iff_bit bit_or_iff TrimCenter_def bit_1_iff)
qed

lemma BoxIterator_skipWhile_cells:
  "filter (\<lambda>v. \<not> cond v) (BoxIterator_cells it) =
     (if BoxIterator_ok (BoxIterator_skipWhile cond it)
      then bit_current (BoxIterator_skipWhile cond it)
           # filter (\<lambda>v. \<not> cond v)
               (BoxIterator_cells (BoxIterator_incr (BoxIterator_skipWhile cond it)))
      else [])"
proof (induction cond it rule: BoxIterator_skipWhile.induct)
  case (1 cond it)
  show ?case
  proof (cases "BoxIterator_ok it \<and> cond (bit_current it)")
    case True
    then have s: "BoxIterator_skipWhile cond it = BoxIterator_skipWhile cond (BoxIterator_incr it)"
      by (subst BoxIterator_skipWhile.simps) simp
    have c: "BoxIterator_cells it = bit_current it # BoxIterator_cells (BoxIterator_incr it)"
      using True by (subst BoxIterator_cells.simps) simp
    show ?thesis using "1.IH" [OF True] True unfolding s c by simp
  next
    case False
    then have s: "BoxIterator_skipWhile cond it = it"
      by (subst BoxIterator_skipWhile.simps) auto
    show ?thesis
    proof (cases "BoxIterator_ok it")
      case True
      then have c: "BoxIterator_cells it = bit_current it # BoxIterator_cells (BoxIterator_incr it)"
        by (subst BoxIterator_cells.simps) simp
      show ?thesis using True False unfolding s c by simp
    next
      case nok: False
      then have "BoxIterator_cells it = []" by (subst BoxIterator_cells.simps) simp
      then show ?thesis using nok unfolding s by simp
    qed
  qed
qed

lemma NeighborIterator_nbrDir_fun:
  "NeighborIterator_nbrDir = (\<lambda>s. bit_current (nit_nbrOffset s))"
  by (rule ext) (simp add: NeighborIterator_nbrDir_def)

lemma NeighborIterator_states_offsets:
  "nit_nbrOffset s = BoxIterator_skipWhile (trimmed (nit_trim s)) it \<Longrightarrow>
   map NeighborIterator_nbrDir (NeighborIterator_states s)
     = filter (\<lambda>v. \<not> trimmed (nit_trim s) v) (BoxIterator_cells it)"
proof (induction s arbitrary: it rule: NeighborIterator_states.induct)
  case (1 s)
  note f = BoxIterator_skipWhile_cells [of "trimmed (nit_trim s)" it, folded "1.prems"]
  show ?case
  proof (cases "NeighborIterator_ok s")
    case True
    have inc: "nit_nbrOffset (NeighborIterator_incr s) =
        BoxIterator_skipWhile (trimmed (nit_trim (NeighborIterator_incr s))) (BoxIterator_incr (nit_nbrOffset s))"
      by (simp add: NeighborIterator_incr_def Let_def)
    have tr: "nit_trim (NeighborIterator_incr s) = nit_trim s"
      by (simp add: NeighborIterator_incr_def Let_def)
    from "1.IH" [OF True inc] True show ?thesis
      by (subst NeighborIterator_states.simps)
         (simp add: f tr NeighborIterator_ok_def NeighborIterator_nbrDir_fun)
  next
    case False
    then show ?thesis
      by (subst NeighborIterator_states.simps)
         (simp add: f NeighborIterator_ok_def)
  qed
qed

text \<open>What stays fixed along the loop, and how \<^verbatim>\<open>m_current\<close> follows the offset.\<close>

lemma NeighborIterator_states_invariant:
  assumes "s \<in> set (NeighborIterator_states s0)"
    and "it_current s0 = nit_base s0
           + linearNbrOffset (it_disjointBoxLayout s0) (NeighborIterator_nbrDir s0)"
  shows "it_disjointBoxLayout s = it_disjointBoxLayout s0 \<and> nit_base s = nit_base s0
       \<and> it_current s = nit_base s0
           + linearNbrOffset (it_disjointBoxLayout s0) (NeighborIterator_nbrDir s)"
  using assms
proof (induction s0 rule: NeighborIterator_states.induct)
  case (1 s0)
  show ?case
  proof (cases "NeighborIterator_ok s0")
    case True
    then have "s = s0 \<or> s \<in> set (NeighborIterator_states (NeighborIterator_incr s0))"
      using "1.prems"(1) by (subst (asm) NeighborIterator_states.simps) simp
    then show ?thesis
    proof
      assume "s = s0" then show ?thesis using "1.prems"(2) by simp
    next
      assume m: "s \<in> set (NeighborIterator_states (NeighborIterator_incr s0))"
      have "it_current (NeighborIterator_incr s0) = nit_base (NeighborIterator_incr s0)
           + linearNbrOffset (it_disjointBoxLayout (NeighborIterator_incr s0))
               (NeighborIterator_nbrDir (NeighborIterator_incr s0))"
        by (simp add: NeighborIterator_incr_def Let_def NeighborIterator_nbrDir_def)
      from "1.IH" [OF True m this] show ?thesis
        by (simp add: NeighborIterator_incr_def Let_def)
    qed
  next
    case False
    then show ?thesis using "1.prems"(1)
      by (subst (asm) NeighborIterator_states.simps) simp
  qed
qed

lemma nth_concat_uniform:
  assumes "\<And>x. x \<in> set xs \<Longrightarrow> length (f x) = m" and "a < length xs" and "b < m"
  shows "concat (map f xs) ! (a * m + b) = f (xs ! a) ! b"
  using assms
proof (induction xs arbitrary: a)
  case Nil
  then show ?case by simp
next
  case (Cons x xs)
  have lx: "length (f x) = m" using Cons.prems(1) by simp
  show ?case
  proof (cases a)
    case 0
    then show ?thesis using Cons.prems lx by (simp add: nth_append)
  next
    case (Suc a')
    have "concat (map f xs) ! (a' * m + b) = f (xs ! a') ! b"
      using Cons.prems Suc by (intro Cons.IH) simp_all
    then show ?thesis using Suc lx by (simp add: nth_append)
  qed
qed

lemma nth_upto_int: "i + int n \<le> j \<Longrightarrow> [i..j] ! n = i + int n"
  by (rule nth_upto)

lemma nth_fortranCells:
  assumes v: "containsIV b (IntVect i j k)"
  shows "fortranCells b ! nat ((i - iv0 (loVect b))
            + (iv0 (hiVect b) - iv0 (loVect b) + 1) * ((j - iv1 (loVect b))
            + (iv1 (hiVect b) - iv1 (loVect b) + 1) * (k - iv2 (loVect b))))
         = IntVect i j k"
proof -
  obtain l0 l1 l2 h0 h1 h2 where b: "b = Box (IntVect l0 l1 l2) (IntVect h0 h1 h2)"
    by (metis Box.exhaust IntVect.exhaust)
  from v have le: "l0 \<le> i" "i \<le> h0" "l1 \<le> j" "j \<le> h1" "l2 \<le> k" "k \<le> h2"
    by (simp_all add: b containsIV_def ivLe_def)
  define N0 where "N0 = nat (h0 - l0 + 1)"
  define N1 where "N1 = nat (h1 - l1 + 1)"
  define a0 where "a0 = nat (i - l0)"
  define a1 where "a1 = nat (j - l1)"
  define a2 where "a2 = nat (k - l2)"
  have lt: "a0 < N0" "a1 < N1" "a2 < length [l2..h2]" "a1 < length [l1..h1]"
    using le by (simp_all add: a0_def a1_def a2_def N0_def N1_def)
  have idx: "nat ((i - l0) + (h0 - l0 + 1) * ((j - l1) + (h1 - l1 + 1) * (k - l2)))
        = a2 * (N1 * N0) + (a1 * N0 + a0)"
  proof -
    have "int (a2 * (N1 * N0) + (a1 * N0 + a0))
        = (i - l0) + (h0 - l0 + 1) * ((j - l1) + (h1 - l1 + 1) * (k - l2))"
      using le by (simp add: a0_def a1_def a2_def N0_def N1_def algebra_simps)
    then show ?thesis by (metis nat_int)
  qed
  have in1: "a1 * N0 + a0 < N1 * N0"
  proof -
    have "a1 * N0 + a0 < a1 * N0 + N0" using lt by simp
    also have "\<dots> = (a1 + 1) * N0" by simp
    also have "\<dots> \<le> N1 * N0" using lt by (intro mult_le_mono1) simp
    finally show ?thesis .
  qed
  have "fortranCells b ! (a2 * (N1 * N0) + (a1 * N0 + a0)) = fortranPlane b ([l2..h2] ! a2) ! (a1 * N0 + a0)"
    unfolding fortranCells_def b Box.sel IntVect.sel
    by (rule nth_concat_uniform [OF _ lt(3) in1])
       (simp add: length_fortranPlane N0_def N1_def)
  also have "[l2..h2] ! a2 = k" using le by (simp add: a2_def nth_upto_int)
  also have "fortranPlane b k ! (a1 * N0 + a0) = fortranRow b k ([l1..h1] ! a1) ! a0"
    unfolding fortranPlane_def b Box.sel IntVect.sel
    by (rule nth_concat_uniform [OF _ lt(4) lt(1)])
       (simp add: length_fortranRow N0_def)
  also have "[l1..h1] ! a1 = j" using le by (simp add: a1_def nth_upto_int)
  also have "fortranRow b k j ! a0 = IntVect i j k"
    using le lt(1) by (simp add: fortranRow_def b a0_def N0_def nth_upto_int)
  finally show ?thesis unfolding idx [symmetric] by (simp add: b)
qed

subsection \<open>Linear indices and lattice positions\<close>

lemma linear_bounds:
  fixes i j k n0 n1 n2 :: int
  assumes "0 \<le> i" "i \<le> n0 - 1" "0 \<le> j" "j \<le> n1 - 1" "0 \<le> k" "k \<le> n2 - 1"
  shows "0 \<le> i + n0 * j + n0 * n1 * k" and "i + n0 * j + n0 * n1 * k < n0 * n1 * n2"
proof -
  have n: "0 < n0" "0 < n1" using assms by linarith+
  have a: "0 \<le> n0 * j" "0 \<le> n0 * n1 * k" using n assms by simp_all
  then show "0 \<le> i + n0 * j + n0 * n1 * k" using assms by linarith
  have "n0 * j \<le> n0 * (n1 - 1)" using n assms by (intro mult_left_mono) simp_all
  moreover have "n0 * n1 * k \<le> n0 * n1 * (n2 - 1)" using n assms by (intro mult_left_mono) simp_all
  ultimately have "i + n0 * j + n0 * n1 * k \<le> (n0 - 1) + n0 * (n1 - 1) + n0 * n1 * (n2 - 1)"
    using assms by linarith
  also have "\<dots> = n0 * n1 * n2 - 1" by (simp add: algebra_simps)
  finally show "i + n0 * j + n0 * n1 * k < n0 * n1 * n2" by simp
qed

lemma int_div_less:
  fixes m n p :: int
  assumes "0 < m" and "p < n * m"
  shows "p div m < n"
proof (rule ccontr)
  assume "\<not> p div m < n"
  then have "n \<le> p div m" by simp
  then have "n * m \<le> (p div m) * m" using assms(1) by (intro mult_right_mono) simp_all
  also have "\<dots> \<le> p"
    using div_mult_mod_eq [of p m] pos_mod_sign [OF assms(1), of p] by linarith
  finally show False using assms(2) by simp
qed

lemma int_div_add_mult:
  fixes m r k :: int
  shows "0 < m \<Longrightarrow> 0 \<le> r \<Longrightarrow> r < m \<Longrightarrow> (r + m * k) div m = k"
  by simp

lemma ivBaseOf_decode:
  assumes nb: "ivLe ivUnit nb" and p: "0 \<le> p" "p < product nb"
  defines "v \<equiv> ivBaseOf (IntVect 1 (iv0 nb) (iv0 nb * iv1 nb)) p"
  shows "containsIV (ivDomain nb) v"
    and "iv0 v + iv0 nb * iv1 v + iv0 nb * iv1 nb * iv2 v = p"
proof -
  obtain n0 n1 n2 where n: "nb = IntVect n0 n1 n2" by (cases nb)
  from nb have np: "0 < n0" "0 < n1" "0 < n2" by (simp_all add: n ivLe_def ivUnit_def)
  have s2: "0 < n0 * n1" using np by simp
  define k where "k = p div (n0 * n1)"
  define r where "r = p mod (n0 * n1)"
  define j where "j = r div n0"
  define i where "i = r mod n0"
  have r0: "0 \<le> r" "r < n0 * n1" using s2 by (simp_all add: r_def)
  have req: "p - n0 * n1 * k = r" by (simp add: r_def k_def minus_mult_div_eq_mod)
  have ieq: "r - n0 * j = i" by (simp add: i_def j_def minus_mult_div_eq_mod)
  have veq: "v = IntVect i j k"
    using p r0 s2 np
    by (simp add: v_def ivBaseOf_def Let_def ivAt_def ivSet_def ivDefault_def n sdiv_nonneg_pos
        k_def [symmetric] req j_def [symmetric] ieq)
  have k0: "0 \<le> k" using p s2 by (simp add: k_def pos_imp_zdiv_nonneg_iff)
  have "p < n2 * (n0 * n1)" using p by (simp add: n product_def mult.commute mult.left_commute)
  then have k1: "k < n2" using s2 unfolding k_def by (intro int_div_less)
  have j0: "0 \<le> j" using r0 np by (simp add: j_def pos_imp_zdiv_nonneg_iff)
  have "r < n1 * n0" using r0 by (simp add: mult.commute)
  then have j1: "j < n1" using np unfolding j_def by (intro int_div_less)
  have i0: "0 \<le> i" "i < n0" using np by (simp_all add: i_def)
  show "containsIV (ivDomain nb) v"
    using k0 k1 j0 j1 i0
    by (simp add: veq n containsIV_def ivDomain_def ivLe_def ivZero_def ivSub_def ivUnit_def)
  have "i + n0 * j = r" using ieq by simp
  moreover have "r + n0 * n1 * k = p" using req by simp
  ultimately show "iv0 v + iv0 nb * iv1 v + iv0 nb * iv1 nb * iv2 v = p"
    by (simp add: veq n)
qed

lemma ivBaseOf_encode:
  assumes nb: "ivLe ivUnit nb" and v: "containsIV (ivDomain nb) v"
  shows "ivBaseOf (IntVect 1 (iv0 nb) (iv0 nb * iv1 nb))
           (iv0 v + iv0 nb * iv1 v + iv0 nb * iv1 nb * iv2 v) = v"
proof -
  obtain n0 n1 n2 where n: "nb = IntVect n0 n1 n2" by (cases nb)
  obtain i j k where vv: "v = IntVect i j k" by (cases v)
  from nb have np: "0 < n0" "0 < n1" "0 < n2" by (simp_all add: n ivLe_def ivUnit_def)
  from v have le: "0 \<le> i" "i \<le> n0 - 1" "0 \<le> j" "j \<le> n1 - 1" "0 \<le> k" "k \<le> n2 - 1"
    by (simp_all add: n vv containsIV_def ivDomain_def ivLe_def ivZero_def ivSub_def ivUnit_def)
  define p where "p = i + n0 * j + n0 * n1 * k"
  have p0: "0 \<le> p" "p < product nb"
    using linear_bounds [OF le] by (simp_all add: p_def n product_def)
  have r: "0 \<le> i + n0 * j" "i + n0 * j < n0 * n1"
    using linear_bounds [of i n0 j n1 0 1] le by simp_all
  have s2: "0 < n0 * n1" using np by simp
  have kd: "p div (n0 * n1) = k"
    unfolding p_def using int_div_add_mult [OF s2 r, of k] by simp
  have jd: "(i + n0 * j) div n0 = j"
    using le np by (simp add: div_pos_pos_trivial)
  have rem: "p - n0 * n1 * k = i + n0 * j" by (simp add: p_def)
  have jsd: "(i + n0 * j) sdiv n0 = j"
    using r np jd by (simp add: sdiv_nonneg_pos)
  have ksd: "p sdiv (n0 * n1) = k"
    using p0 s2 kd by (simp add: sdiv_nonneg_pos)
  show ?thesis
    by (simp add: ivBaseOf_def Let_def ivAt_def ivSet_def ivDefault_def n vv
        p_def [symmetric] ksd rem jsd)
qed

lemma linearNbrOffset_stride:
  "m_stride dbl = IntVect 1 n0 (n0 * n1) \<Longrightarrow>
   linearNbrOffset dbl v = iv0 v + n0 * iv1 v + n0 * n1 * iv2 v"
  by (simp add: linearNbrOffset_def ivAt_def mult.commute)

lemma linearNbrOffset_add:
  "linearNbrOffset dbl (ivAdd v w) = linearNbrOffset dbl v + linearNbrOffset dbl w"
  by (simp add: linearNbrOffset_def ivAt_def ivAdd_def algebra_simps)

text \<open>
  In a constructed layout the box with global index \<open>p\<close> is the lattice box at the position
  the iterators decode from \<open>p\<close>, and the box at lattice position \<open>v\<close> has global index
  \<open>linearNbrOffset v\<close>.
\<close>

lemma layout_position_of_index:
  assumes ne: "\<not> isEmpty d" and mb: "ivLe ivUnit M" and np: "1 \<le> numProc"
    and ok: "DisjointBoxLayout_define numProc procID d M = Inr dbl"
    and p: "0 \<le> p" "p < m_size dbl"
  shows "containsIV (ivDomain (m_numBox dbl)) (ivBaseOf (m_stride dbl) p)"
    and "linearNbrOffset dbl (ivBaseOf (m_stride dbl) p) = p"
proof -
  note d = DisjointBoxLayout_define_Inr [OF ne mb np ok]
  have nbp: "ivLe ivUnit (m_numBox dbl)" using d(1) by (simp add: evenGeometry_def)
  have pp: "p < product (m_numBox dbl)" using p d(4) by simp
  show "containsIV (ivDomain (m_numBox dbl)) (ivBaseOf (m_stride dbl) p)"
    unfolding d(3) by (rule ivBaseOf_decode(1) [OF nbp p(1) pp])
  show "linearNbrOffset dbl (ivBaseOf (m_stride dbl) p) = p"
    unfolding linearNbrOffset_stride [OF d(3)]
    unfolding d(3) by (rule ivBaseOf_decode(2) [OF nbp p(1) pp])
qed

lemma layout_index_of_position:
  assumes ne: "\<not> isEmpty d" and mb: "ivLe ivUnit M" and np: "1 \<le> numProc"
    and ok: "DisjointBoxLayout_define numProc procID d M = Inr dbl"
    and v: "containsIV (ivDomain (m_numBox dbl)) v"
  shows "0 \<le> linearNbrOffset dbl v"
    and "linearNbrOffset dbl v < m_size dbl"
    and "dblBox dbl (BoxIndex (linearNbrOffset dbl v) l) = latticeBox d M v"
    and "ivBaseOf (m_stride dbl) (linearNbrOffset dbl v) = v"
proof -
  note d = DisjointBoxLayout_define_Inr [OF ne mb np ok]
  obtain n0 n1 n2 where n: "m_numBox dbl = IntVect n0 n1 n2" by (cases "m_numBox dbl")
  obtain i j k where vv: "v = IntVect i j k" by (cases v)
  have nbp: "ivLe ivUnit (m_numBox dbl)" using d(1) by (simp add: evenGeometry_def)
  from v have le: "0 \<le> i" "i \<le> n0 - 1" "0 \<le> j" "j \<le> n1 - 1" "0 \<le> k" "k \<le> n2 - 1"
    by (simp_all add: n vv containsIV_def ivDomain_def ivLe_def ivZero_def ivSub_def ivUnit_def)
  have lin: "linearNbrOffset dbl v = i + n0 * j + n0 * n1 * k"
    using linearNbrOffset_stride [OF d(3), of v] by (simp add: n vv)
  have sz: "m_size dbl = n0 * n1 * n2" using d(4) by (simp add: n product_def)
  show b0: "0 \<le> linearNbrOffset dbl v" and b1: "linearNbrOffset dbl v < m_size dbl"
    using linear_bounds [OF le] unfolding lin sz by simp_all
  have idx: "i + n0 * (j + n1 * k) = linearNbrOffset dbl v"
    by (simp add: lin algebra_simps)
  have "fortranCells (ivDomain (m_numBox dbl)) ! nat (i + n0 * (j + n1 * k)) = v"
    using nth_fortranCells [of "ivDomain (m_numBox dbl)" i j k] v
    by (simp add: vv n ivDomain_def ivZero_def ivSub_def ivUnit_def)
  then have "fortranCells (ivDomain (m_numBox dbl)) ! nat (linearNbrOffset dbl v) = v"
    unfolding idx .
  then show "dblBox dbl (BoxIndex (linearNbrOffset dbl v) l) = latticeBox d M v"
    using b0 b1 by (simp add: dblBox_def d(8) latticeEntry_def)
  show "ivBaseOf (m_stride dbl) (linearNbrOffset dbl v) = v"
    using ivBaseOf_encode [OF nbp v] unfolding d(3) lin by (simp add: n vv)
qed

lemma ivAdd_ivZero [simp]: "ivAdd w ivZero = w"
  by (cases w) (simp add: ivAdd_def ivZero_def)

lemma cells_shift: "v \<in> cells (shift b (ivNeg w)) \<longleftrightarrow> ivAdd w v \<in> cells b"
  by (cases v; cases w) (auto simp: cells_def containsIV_def shift_def ivNeg_def ivAdd_def ivLe_def)

text \<open>The offsets a NeighborIterator constructed with the default stencil yields.\<close>

lemma NeighborIterator_new_offsets:
  assumes base: "containsIV (Box ivZero (ivSub (m_numBox (it_disjointBoxLayout lit)) ivUnit))
                   (ivBaseOf (m_stride (it_disjointBoxLayout lit)) (it_current lit))"
  shows "map NeighborIterator_nbrDir
           (NeighborIterator_states (NeighborIterator_new lit a_trim (Box (ivNeg ivUnit) ivUnit)))
         = filter (\<lambda>v. \<not> trimmed (a_trim OR TrimCenter) v)
             (fortranCells (intersect (Box (ivNeg ivUnit) ivUnit)
                (shift (Box ivZero (ivSub (m_numBox (it_disjointBoxLayout lit)) ivUnit))
                   (ivNeg (ivBaseOf (m_stride (it_disjointBoxLayout lit)) (it_current lit))))))"
proof -
  let ?dbl = "it_disjointBoxLayout lit"
  let ?base = "ivBaseOf (m_stride ?dbl) (it_current lit)"
  let ?nbr = "intersect (Box (ivNeg ivUnit) ivUnit)
                (shift (Box ivZero (ivSub (m_numBox ?dbl) ivUnit)) (ivNeg ?base))"
  let ?s = "NeighborIterator_new lit a_trim (Box (ivNeg ivUnit) ivUnit)"
  have off: "nit_nbrOffset ?s = BoxIterator_skipWhile (trimmed (nit_trim ?s)) (BoxIterator_new ?nbr)"
    and tr: "nit_trim ?s = a_trim OR TrimCenter"
    by (simp_all add: NeighborIterator_new_def Let_def LayoutIterator_deref_def)
  have "?base \<in> cells (Box ivZero (ivSub (m_numBox ?dbl) ivUnit))"
    using base by (simp add: cells_def)
  then have "ivZero \<in> cells (shift (Box ivZero (ivSub (m_numBox ?dbl) ivUnit)) (ivNeg ?base))"
    by (simp only: cells_shift ivAdd_ivZero)
  moreover have "ivZero \<in> cells (Box (ivNeg ivUnit) ivUnit)"
    by (simp add: cells_def containsIV_def ivLe_def ivZero_def ivNeg_def ivUnit_def)
  ultimately have "ivZero \<in> cells ?nbr"
    by (simp only: cells_intersect) blast
  then have ne: "\<not> isEmpty ?nbr" unfolding isEmpty_cells by blast
  show ?thesis
    using NeighborIterator_states_offsets [OF off] BoxIterator_cells_fortran [OF ne]
    by (simp add: tr)
qed

lemma stencil_cells:
  "fortranCells (Box (IntVect (- 1) (- 1) (- 1)) (IntVect 1 1 1)) =
    [IntVect (- 1) (- 1) (- 1), IntVect 0 (- 1) (- 1), IntVect 1 (- 1) (- 1),
     IntVect (- 1) 0 (- 1), IntVect 0 0 (- 1), IntVect 1 0 (- 1),
     IntVect (- 1) 1 (- 1), IntVect 0 1 (- 1), IntVect 1 1 (- 1),
     IntVect (- 1) (- 1) 0, IntVect 0 (- 1) 0, IntVect 1 (- 1) 0,
     IntVect (- 1) 0 0, IntVect 0 0 0, IntVect 1 0 0,
     IntVect (- 1) 1 0, IntVect 0 1 0, IntVect 1 1 0,
     IntVect (- 1) (- 1) 1, IntVect 0 (- 1) 1, IntVect 1 (- 1) 1,
     IntVect (- 1) 0 1, IntVect 0 0 1, IntVect 1 0 1,
     IntVect (- 1) 1 1, IntVect 0 1 1, IntVect 1 1 1]"
  by (simp add: fortranCells_def fortranPlane_def fortranRow_def upto.simps)

lemma NeighborIterator_new_current:
  "it_current (NeighborIterator_new lit a_trim a_nbr) =
     nit_base (NeighborIterator_new lit a_trim a_nbr)
       + linearNbrOffset (it_disjointBoxLayout (NeighborIterator_new lit a_trim a_nbr))
           (NeighborIterator_nbrDir (NeighborIterator_new lit a_trim a_nbr))"
  and NeighborIterator_new_base: "nit_base (NeighborIterator_new lit a_trim a_nbr) = it_current lit"
  and NeighborIterator_new_dbl:
    "it_disjointBoxLayout (NeighborIterator_new lit a_trim a_nbr) = it_disjointBoxLayout lit"
  by (simp_all add: NeighborIterator_new_def Let_def NeighborIterator_nbrDir_def)

lemma interior_stencil:
  assumes "containsIV (Box ivUnit (ivSub nb (IntVect 2 2 2))) v"
  shows "intersect (Box (ivNeg ivUnit) ivUnit) (shift (Box ivZero (ivSub nb ivUnit)) (ivNeg v))
         = Box (IntVect (- 1) (- 1) (- 1)) (IntVect 1 1 1)"
  using assms
  by (cases v; cases nb)
     (simp add: containsIV_def intersect_def shift_def ivLe_def ivMax_def ivMin_def ivAdd_def
        ivSub_def ivNeg_def ivUnit_def ivZero_def)

text \<open>The offsets and boxes the loop over a NeighborIterator yields in a constructed layout.\<close>

lemma NeighborIterator_stencil:
  assumes "\<not> isEmpty a_domain" and "ivLe ivUnit a_maxBoxSize" and "1 \<le> numProc"
    and "DisjointBoxLayout_define numProc procID a_domain a_maxBoxSize = Inr dbl"
    and "it_disjointBoxLayout lit = dbl" and "0 \<le> it_current lit" and "it_current lit < m_size dbl"
  shows "let ys = NeighborIterator_states (NeighborIterator_new lit a_trim (Box (ivNeg ivUnit) ivUnit));
             ivBase = ivBaseOf (m_stride dbl) (it_current lit)
         in containsIV (ivDomain (m_numBox dbl)) ivBase
          \<and> dblBox dbl (LayoutIterator_deref lit) = latticeBox a_domain a_maxBoxSize ivBase
          \<and> distinct (map NeighborIterator_nbrDir ys)
          \<and> set (map NeighborIterator_nbrDir ys) =
               {off. containsIV (Box (ivNeg ivUnit) ivUnit) off
                   \<and> containsIV (ivDomain (m_numBox dbl)) (ivAdd ivBase off)
                   \<and> off \<noteq> ivZero \<and> \<not> bit a_trim (nat (norm1 off))}
          \<and> (\<forall>s \<in> set ys.
                 globalIndex (LayoutIterator_deref s)
                   = it_current lit + linearNbrOffset dbl (NeighborIterator_nbrDir s)
               \<and> 0 \<le> globalIndex (LayoutIterator_deref s)
               \<and> globalIndex (LayoutIterator_deref s) < m_size dbl
               \<and> dblBox dbl (LayoutIterator_deref s)
                   = latticeBox a_domain a_maxBoxSize (ivAdd ivBase (NeighborIterator_nbrDir s)))
          \<and> (a_trim = 0 \<and> containsIV (Box ivUnit (ivSub (m_numBox dbl) (IntVect 2 2 2))) ivBase
                \<longrightarrow> length ys = 26)"
proof -
  note wf = assms(1-4)
  let ?p = "it_current lit"
  let ?ys = "NeighborIterator_states (NeighborIterator_new lit a_trim (Box (ivNeg ivUnit) ivUnit))"
  let ?base = "ivBaseOf (m_stride dbl) ?p"
  let ?nbr = "intersect (Box (ivNeg ivUnit) ivUnit)
                (shift (Box ivZero (ivSub (m_numBox dbl) ivUnit)) (ivNeg ?base))"
  note pos = layout_position_of_index [OF wf assms(6,7)]
  have base: "containsIV (ivDomain (m_numBox dbl)) ?base" by (rule pos(1))
  have box: "dblBox dbl (LayoutIterator_deref lit) = latticeBox a_domain a_maxBoxSize ?base"
    using layout_index_of_position(3) [OF wf base, of "?p - localIdxBegin dbl"] pos(2)
    by (simp add: LayoutIterator_deref_def assms(5))
  have offs: "map NeighborIterator_nbrDir ?ys
         = filter (\<lambda>v. \<not> trimmed (a_trim OR TrimCenter) v) (fortranCells ?nbr)"
    using NeighborIterator_new_offsets [of lit a_trim] base
    by (simp add: assms(5) ivDomain_def)
  have dist: "distinct (map NeighborIterator_nbrDir ?ys)"
    unfolding offs by (simp add: distinct_fortranCells)
  have mem: "off \<in> set (map NeighborIterator_nbrDir ?ys) \<longleftrightarrow>
        containsIV (Box (ivNeg ivUnit) ivUnit) off
        \<and> containsIV (ivDomain (m_numBox dbl)) (ivAdd ?base off)
        \<and> off \<noteq> ivZero \<and> \<not> bit a_trim (nat (norm1 off))" for off
  proof -
    have "off \<in> cells ?nbr \<longleftrightarrow> containsIV (Box (ivNeg ivUnit) ivUnit) off
        \<and> containsIV (ivDomain (m_numBox dbl)) (ivAdd ?base off)"
      by (simp only: cells_intersect cells_shift Int_iff) (simp add: cells_def ivDomain_def)
    then show ?thesis
      unfolding offs by (auto simp: set_fortranCells trimmed_TrimCenter)
  qed
  have each: "globalIndex (LayoutIterator_deref s) = ?p + linearNbrOffset dbl (NeighborIterator_nbrDir s)
               \<and> 0 \<le> globalIndex (LayoutIterator_deref s)
               \<and> globalIndex (LayoutIterator_deref s) < m_size dbl
               \<and> dblBox dbl (LayoutIterator_deref s)
                   = latticeBox a_domain a_maxBoxSize (ivAdd ?base (NeighborIterator_nbrDir s))"
    if s: "s \<in> set ?ys" for s
  proof -
    from NeighborIterator_states_invariant [OF s NeighborIterator_new_current]
    have cur: "it_current s = ?p + linearNbrOffset dbl (NeighborIterator_nbrDir s)"
      and sd: "it_disjointBoxLayout s = dbl"
      by (simp_all add: NeighborIterator_new_base NeighborIterator_new_dbl assms(5))
    have "NeighborIterator_nbrDir s \<in> set (map NeighborIterator_nbrDir ?ys)" using s by simp
    then have inD: "containsIV (ivDomain (m_numBox dbl)) (ivAdd ?base (NeighborIterator_nbrDir s))"
      unfolding mem by simp
    have lin: "linearNbrOffset dbl (ivAdd ?base (NeighborIterator_nbrDir s)) = it_current s"
      unfolding linearNbrOffset_add pos(2) cur ..
    note ip = layout_index_of_position [OF wf inD]
    show ?thesis
      using ip(1,2) ip(3) [of "it_current s - localIdxBegin dbl"] cur
      unfolding lin by (simp add: LayoutIterator_deref_def sd)
  qed
  have count: "length ?ys = 26"
    if "a_trim = 0" "containsIV (Box ivUnit (ivSub (m_numBox dbl) (IntVect 2 2 2))) ?base"
  proof -
    have tc: "trimmed (a_trim OR TrimCenter) v \<longleftrightarrow> v = ivZero" for v
      using trimmed_TrimCenter [of a_trim v] that(1) by simp
    have m: "map NeighborIterator_nbrDir ?ys = filter (\<lambda>v. v \<noteq> ivZero)
        (fortranCells (Box (IntVect (- 1) (- 1) (- 1)) (IntVect 1 1 1)))"
      unfolding offs interior_stencil [OF that(2)] by (simp add: tc)
    have "length ?ys = length (map NeighborIterator_nbrDir ?ys)" by simp
    also have "\<dots> = 26"
      unfolding m stencil_cells by (simp add: ivZero_def)
    finally show ?thesis .
  qed
  show ?thesis
    unfolding Let_def using base box dist mem each count by blast
qed

text \<open>
  C7.  Let \<open>lit\<close> point at position \<open>p\<close> of a constructed layout, whose box sits at the
  lattice position \<open>ivBase\<close>.  For every trim mask, the loop over
  \<^verbatim>\<open>NeighborIterator(lit, trim)\<close> yields each offset \<open>off\<close> of the 3x3x3 stencil exactly
  once for which \<open>ivBase + off\<close> lies inside the lattice, \<open>off\<close> is not the zero offset and
  bit \<open>norm1 off\<close> of the trim mask is clear, and no other; the BoxIndex yielded with \<open>off\<close>
  is the one of the box at lattice position \<open>ivBase + off\<close>.  With no trimming and a position
  not touching the lattice boundary there are \<open>3^3 - 1 = 26\<close> neighbours.
\<close>

theorem NeighborIterator_enumerates_stencil:
  assumes "\<not> isEmpty a_domain" and "ivLe ivUnit a_maxBoxSize" and "1 \<le> numProc"
    and "DisjointBoxLayout_define numProc procID a_domain a_maxBoxSize = Inr dbl"
    and "it_disjointBoxLayout lit = dbl" and "0 \<le> it_current lit" and "it_current lit < m_size dbl"
  shows "let ys = NeighborIterator_states (NeighborIterator_new lit a_trim (Box (ivNeg ivUnit) ivUnit));
             ivBase = ivBaseOf (m_stride dbl) (it_current lit)
         in containsIV (ivDomain (m_numBox dbl)) ivBase
          \<and> dblBox dbl (LayoutIterator_deref lit) = latticeBox a_domain a_maxBoxSize ivBase
          \<and> distinct (map NeighborIterator_nbrDir ys)
          \<and> set (map NeighborIterator_nbrDir ys) =
               {off. containsIV (Box (ivNeg ivUnit) ivUnit) off
                   \<and> containsIV (ivDomain (m_numBox dbl)) (ivAdd ivBase off)
                   \<and> off \<noteq> ivZero \<and> \<not> bit a_trim (nat (norm1 off))}
          \<and> (\<forall>s \<in> set ys.
                 globalIndex (LayoutIterator_deref s)
                   = it_current lit + linearNbrOffset dbl (NeighborIterator_nbrDir s)
               \<and> 0 \<le> globalIndex (LayoutIterator_deref s)
               \<and> globalIndex (LayoutIterator_deref s) < m_size dbl
               \<and> dblBox dbl (LayoutIterator_deref s)
                   = latticeBox a_domain a_maxBoxSize (ivAdd ivBase (NeighborIterator_nbrDir s)))
          \<and> (a_trim = 0 \<and> containsIV (Box ivUnit (ivSub (m_numBox dbl) (IntVect 2 2 2))) ivBase
                \<longrightarrow> length ys = 26)"
  by (rule NeighborIterator_stencil [OF assms])


lemma define_example_27boxes:
  "\<exists>dbl. DisjointBoxLayout_define 1 0 (Box (IntVect 0 0 0) (IntVect 8 8 8)) (IntVect 3 3 3) = Inr dbl
     \<and> m_stride dbl = IntVect 1 3 9 \<and> m_numBox dbl = IntVect 3 3 3 \<and> m_size dbl = 27
     \<and> m_localIdxBeg dbl = 0 \<and> m_numLocalBox dbl = 27"
proof -
  have ne: "\<not> isEmpty (Box (IntVect 0 0 0) (IntVect 8 8 8))" by (simp add: isEmpty_def ivLe_def)
  have mb: "ivLe ivUnit (IntVect 3 3 3)" by (simp add: ivLe_def ivUnit_def)
  show ?thesis
    unfolding DisjointBoxLayout_define_cases [OF ne mb order_refl]
    by (simp add: dimensions_def ivAdd_def ivSub_def ivUnit_def product_def)
qed

theorem NeighborIterator_enumerates_stencil_witness:
  "\<exists>dbl. DisjointBoxLayout_define 1 0 (Box (IntVect 0 0 0) (IntVect 8 8 8)) (IntVect 3 3 3) = Inr dbl
     \<and> ivBaseOf (m_stride dbl) 13 = IntVect 1 1 1
     \<and> distinct (map NeighborIterator_nbrDir (NeighborIterator_states (NeighborIterator_new
           ((LayoutIterator_new dbl) \<lparr> it_current := 13 \<rparr>) 0 (Box (ivNeg ivUnit) ivUnit))))
     \<and> length (NeighborIterator_states (NeighborIterator_new
           ((LayoutIterator_new dbl) \<lparr> it_current := 13 \<rparr>) 0 (Box (ivNeg ivUnit) ivUnit))) = 26"
proof -
  have ne: "\<not> isEmpty (Box (IntVect 0 0 0) (IntVect 8 8 8))" by (simp add: isEmpty_def ivLe_def)
  have mb: "ivLe ivUnit (IntVect 3 3 3)" by (simp add: ivLe_def ivUnit_def)
  from define_example_27boxes obtain dbl where
    d: "DisjointBoxLayout_define 1 0 (Box (IntVect 0 0 0) (IntVect 8 8 8)) (IntVect 3 3 3) = Inr dbl"
    and f: "m_stride dbl = IntVect 1 3 9" "m_numBox dbl = IntVect 3 3 3" "m_size dbl = 27"
    by blast
  let ?lit = "(LayoutIterator_new dbl) \<lparr> it_current := 13 \<rparr>"
  have b: "ivBaseOf (m_stride dbl) 13 = IntVect 1 1 1"
    by (simp add: f ivBaseOf_def Let_def ivAt_def ivSet_def ivDefault_def signed_divide_int_def)
  have l: "it_disjointBoxLayout ?lit = dbl" "0 \<le> it_current ?lit" "it_current ?lit < m_size dbl"
    by (simp_all add: LayoutIterator_new_def f)
  have i: "containsIV (Box ivUnit (ivSub (m_numBox dbl) (IntVect 2 2 2))) (IntVect 1 1 1)"
    by (simp add: f containsIV_def ivLe_def ivUnit_def ivSub_def)
  from NeighborIterator_enumerates_stencil [OF ne mb order_refl d l, of 0] b i
  have "distinct (map NeighborIterator_nbrDir (NeighborIterator_states (NeighborIterator_new
           ?lit 0 (Box (ivNeg ivUnit) ivUnit))))
     \<and> length (NeighborIterator_states (NeighborIterator_new ?lit 0 (Box (ivNeg ivUnit) ivUnit))) = 26"
    by (simp add: Let_def LayoutIterator_new_def)
  with d b show ?thesis by blast
qed

subsection \<open>PeriodicIterator\<close>

text \<open>The test \<^verbatim>\<open>a_periodic & (1<<dir)\<close>.\<close>

definition periodicDir :: "32 word \<Rightarrow> nat \<Rightarrow> bool" where
  "periodicDir a_periodic dir = (a_periodic AND push_bit dir 1 \<noteq> 0)"

text \<open>
  The member \<^verbatim>\<open>m_ivPeriodicDomainSide[g_SpaceDim][2]\<close> is a list of three pairs (low side,
  high side).  The member \<^verbatim>\<open>m_ivBase\<close> is never assigned: the constructor declares a
  local variable of the same name, so the member keeps its default value.
\<close>

record PeriodicIterator = LayoutIterator +
  pit_nbrOffset :: BoxIterator
  pit_ivDomain :: Box
  pit_ivPeriodicDomain :: Box
  pit_ivPeriodicDomainSide :: "(Box \<times> Box) list"
  pit_ivBase :: IntVect
  pit_base :: int
  pit_trim :: "32 word"
  pit_periodic :: "32 word"

text \<open>\<^verbatim>\<open>PeriodicIterator::setCurrent\<close>\<close>

definition PeriodicIterator_setCurrent :: "PeriodicIterator \<Rightarrow> PeriodicIterator" where
  "PeriodicIterator_setCurrent it =
     (let m_nbrOffset = BoxIterator_skipWhile
            (\<lambda>v. trimmed (pit_trim it) v \<or> containsIV (pit_ivDomain it) v) (pit_nbrOffset it);
          offset = bit_current m_nbrOffset;
          domainDimensions = m_numBox (it_disjointBoxLayout it);
          nbr = ivAdd (pit_ivBase it) offset;
          offset = fold (\<lambda>dir offset.
                     if periodicDir (pit_periodic it) dir then
                       (let offset = (if containsIV (fst (pit_ivPeriodicDomainSide it ! dir)) nbr
                                      then ivSet offset dir (ivAt offset dir + ivAt domainDimensions dir)
                                      else offset);
                            offset = (if containsIV (snd (pit_ivPeriodicDomainSide it ! dir)) nbr
                                      then ivSet offset dir (ivAt offset dir - ivAt domainDimensions dir)
                                      else offset)
                        in offset)
                     else offset) [0, 1, 2] offset
      in it \<lparr> pit_nbrOffset := m_nbrOffset,
              it_current := pit_base it + linearNbrOffset (it_disjointBoxLayout it) offset \<rparr>)"

definition PeriodicIterator_new ::
  "'a LayoutIterator_scheme \<Rightarrow> 32 word \<Rightarrow> 32 word \<Rightarrow> PeriodicIterator" where
  "PeriodicIterator_new a_lit a_trim a_periodic =
     (let dbl = it_disjointBoxLayout a_lit;
          nbr = Box (ivNeg ivUnit) ivUnit;
          m_ivDomain = Box ivZero (ivSub (m_numBox dbl) ivUnit);
          ivBase = ivBaseOf (m_stride dbl) (globalIndex (LayoutIterator_deref a_lit));
          m_ivDomain = shift m_ivDomain (ivNeg ivBase);
          m_ivPeriodicDomain =
            fold (\<lambda>dir b. if periodicDir a_periodic dir then growDir b 1 dir else b)
                 [0, 1, 2] m_ivDomain;
          sides =
            map (\<lambda>dir. if periodicDir a_periodic dir
                        then (let s0 = growDir m_ivPeriodicDomain (- 1) dir;
                                  s1 = s0
                              in (adjBox s0 1 dir (- 1), adjBox s1 1 dir 1))
                        else (emptyBox, emptyBox)) [0, 1, 2];
          nbr = intersect nbr m_ivPeriodicDomain;
          nbr = (if containsBox m_ivDomain nbr then emptyBox else nbr)
      in PeriodicIterator_setCurrent
           \<lparr> it_disjointBoxLayout = dbl, it_current = it_current a_lit, it_size = it_size a_lit,
             pit_nbrOffset = BoxIterator_new nbr,
             pit_ivDomain = m_ivDomain,
             pit_ivPeriodicDomain = m_ivPeriodicDomain,
             pit_ivPeriodicDomainSide = sides,
             pit_ivBase = ivDefault,
             pit_base = it_current a_lit,
             pit_trim = a_trim OR TrimCenter,
             pit_periodic = a_periodic \<rparr>)"

text \<open>\<^verbatim>\<open>PeriodicIterator::operator++\<close>\<close>

definition PeriodicIterator_incr :: "PeriodicIterator \<Rightarrow> PeriodicIterator" where
  "PeriodicIterator_incr it =
     PeriodicIterator_setCurrent (it \<lparr> pit_nbrOffset := BoxIterator_incr (pit_nbrOffset it) \<rparr>)"

definition PeriodicIterator_ok :: "PeriodicIterator \<Rightarrow> bool" where
  "PeriodicIterator_ok it = BoxIterator_ok (pit_nbrOffset it)"

definition PeriodicIterator_nbrDir :: "PeriodicIterator \<Rightarrow> IntVect" where
  "PeriodicIterator_nbrDir it = bit_current (pit_nbrOffset it)"

text \<open>
  The loop \<^verbatim>\<open>for (PeriodicIterator perit(...); perit.ok(); ++perit)\<close>: the iterator states
  the body sees, in order.
\<close>

function PeriodicIterator_states :: "PeriodicIterator \<Rightarrow> PeriodicIterator list" where
  "PeriodicIterator_states it =
     (if PeriodicIterator_ok it then it # PeriodicIterator_states (PeriodicIterator_incr it)
      else [])"
  by pat_completeness auto
termination
proof (relation "measure (\<lambda>it. BoxIterator_remaining (pit_nbrOffset it))")
  show "wf (measure (\<lambda>it. BoxIterator_remaining (pit_nbrOffset it)))" by simp
next
  fix it assume ok: "PeriodicIterator_ok it"
  have "BoxIterator_remaining (pit_nbrOffset (PeriodicIterator_incr it))
        \<le> BoxIterator_remaining (BoxIterator_incr (pit_nbrOffset it))"
    by (simp add: PeriodicIterator_incr_def PeriodicIterator_setCurrent_def Let_def
        BoxIterator_skipWhile_remaining)
  then show "(PeriodicIterator_incr it, it) \<in> measure (\<lambda>it. BoxIterator_remaining (pit_nbrOffset it))"
    using BoxIterator_incr_remaining [of "pit_nbrOffset it"] ok
    by (simp add: PeriodicIterator_ok_def)
qed

declare PeriodicIterator_states.simps [simp del]

text \<open>
  The periodic adjustment of \<^verbatim>\<open>setCurrent\<close>, named for the proofs: the offset after the
  loop over the directions.
\<close>

definition periodicShift ::
  "32 word \<Rightarrow> (Box \<times> Box) list \<Rightarrow> IntVect \<Rightarrow> IntVect \<Rightarrow> IntVect \<Rightarrow> IntVect" where
  "periodicShift a_periodic sides domainDimensions nbr offset =
     fold (\<lambda>dir offset.
             if periodicDir a_periodic dir then
               (let offset = (if containsIV (fst (sides ! dir)) nbr
                              then ivSet offset dir (ivAt offset dir + ivAt domainDimensions dir)
                              else offset);
                    offset = (if containsIV (snd (sides ! dir)) nbr
                              then ivSet offset dir (ivAt offset dir - ivAt domainDimensions dir)
                              else offset)
                in offset)
             else offset) [0, 1, 2] offset"

lemma periodicShift_components:
  "periodicShift P sides dd nbr (IntVect o0 o1 o2) =
     IntVect
       (o0 + (if periodicDir P 0 \<and> containsIV (fst (sides ! 0)) nbr then iv0 dd else 0)
           - (if periodicDir P 0 \<and> containsIV (snd (sides ! 0)) nbr then iv0 dd else 0))
       (o1 + (if periodicDir P 1 \<and> containsIV (fst (sides ! 1)) nbr then iv1 dd else 0)
           - (if periodicDir P 1 \<and> containsIV (snd (sides ! 1)) nbr then iv1 dd else 0))
       (o2 + (if periodicDir P 2 \<and> containsIV (fst (sides ! 2)) nbr then iv2 dd else 0)
           - (if periodicDir P 2 \<and> containsIV (snd (sides ! 2)) nbr then iv2 dd else 0))"
  by (simp add: periodicShift_def Let_def ivSet_def ivAt_def)

text \<open>
  The wrapped-around lattice position: every coordinate taken modulo the number of boxes in
  its direction.
\<close>

definition wrapPosition :: "IntVect \<Rightarrow> IntVect \<Rightarrow> IntVect" where
  "wrapPosition nb v = IntVect (iv0 v mod iv0 nb) (iv1 v mod iv1 nb) (iv2 v mod iv2 nb)"

lemma wrap_1d:
  fixes n x :: int
  assumes "1 \<le> n" "- 1 \<le> x" "x \<le> n"
  shows "x mod n = (if x = - 1 then n - 1 else if x = n then 0 else x)"
proof -
  have "(- 1) mod n = n - 1"
    using assms(1) by (simp add: zmod_minus1)
  moreover have "x mod n = x" if "0 \<le> x" "x < n" using that by simp
  ultimately show ?thesis using assms by (cases "x = - 1"; cases "x = n") simp_all
qed

text \<open>The boxes the PeriodicIterator constructor builds, named for the proofs.\<close>

definition relDomain :: "IntVect \<Rightarrow> IntVect \<Rightarrow> Box" where
  "relDomain nb b = shift (Box ivZero (ivSub nb ivUnit)) (ivNeg b)"

definition periodicDomain :: "32 word \<Rightarrow> Box \<Rightarrow> Box" where
  "periodicDomain a_periodic d =
     fold (\<lambda>dir b. if periodicDir a_periodic dir then growDir b 1 dir else b) [0, 1, 2] d"

definition periodicSides :: "32 word \<Rightarrow> Box \<Rightarrow> (Box \<times> Box) list" where
  "periodicSides a_periodic pd =
     map (\<lambda>dir. if periodicDir a_periodic dir
                 then (let s0 = growDir pd (- 1) dir; s1 = s0
                       in (adjBox s0 1 dir (- 1), adjBox s1 1 dir 1))
                 else (emptyBox, emptyBox)) [0, 1, 2]"

lemma periodicDomain_components:
  "periodicDomain P (Box (IntVect l0 l1 l2) (IntVect h0 h1 h2)) =
     Box (IntVect (l0 - of_bool (periodicDir P 0)) (l1 - of_bool (periodicDir P 1))
                  (l2 - of_bool (periodicDir P 2)))
         (IntVect (h0 + of_bool (periodicDir P 0)) (h1 + of_bool (periodicDir P 1))
                  (h2 + of_bool (periodicDir P 2)))"
  by (simp add: periodicDomain_def growDir_def ivSet_def ivAt_def)

lemma periodicSides_components:
  "periodicSides P (Box (IntVect l0 l1 l2) (IntVect h0 h1 h2)) =
    [if periodicDir P 0
     then (Box (IntVect l0 l1 l2) (IntVect l0 h1 h2), Box (IntVect h0 l1 l2) (IntVect h0 h1 h2))
     else (emptyBox, emptyBox),
     if periodicDir P 1
     then (Box (IntVect l0 l1 l2) (IntVect h0 l1 h2), Box (IntVect l0 h1 l2) (IntVect h0 h1 h2))
     else (emptyBox, emptyBox),
     if periodicDir P 2
     then (Box (IntVect l0 l1 l2) (IntVect h0 h1 l2), Box (IntVect l0 l1 h2) (IntVect h0 h1 h2))
     else (emptyBox, emptyBox)]"
  by (simp add: periodicSides_def growDir_def adjBox_def ivSet_def ivAt_def Let_def)

lemma all_less_3: "(\<forall>dir<3. Q dir) \<longleftrightarrow> Q 0 \<and> Q 1 \<and> Q (2::nat)"
proof -
  have "dir < 3 \<longleftrightarrow> dir = 0 \<or> dir = 1 \<or> dir = 2" for dir :: nat by auto
  then show ?thesis by auto
qed

text \<open>
  The geometry of the periodic neighbourhood of a lattice position \<open>b\<close>: which offsets the
  cropped stencil holds, and that the adjusted offset leads to the wrapped-around position.
\<close>

lemma periodic_geometry:
  fixes P :: "32 word" and nb b off :: IntVect
  assumes nb: "ivLe ivUnit nb" and b: "containsIV (ivDomain nb) b"
  defines "D \<equiv> relDomain nb b"
  defines "PD \<equiv> periodicDomain P (relDomain nb b)"
  defines "nbr0 \<equiv> intersect (Box (ivNeg ivUnit) ivUnit) (periodicDomain P (relDomain nb b))"
  shows "off \<in> cells nbr0 \<longleftrightarrow>
           containsIV (Box (ivNeg ivUnit) ivUnit) off
           \<and> (\<forall>dir<3. periodicDir P dir
                  \<or> (0 \<le> ivAt (ivAdd b off) dir \<and> ivAt (ivAdd b off) dir \<le> ivAt nb dir - 1))"
    and "off \<in> cells nbr0 \<Longrightarrow>
           ivAdd b (periodicShift P (periodicSides P PD) nb (ivAdd ivDefault off) off)
             = wrapPosition nb (ivAdd b off)"
    and "off \<in> cells nbr0 \<Longrightarrow> containsIV (ivDomain nb) (wrapPosition nb (ivAdd b off))"
    and "containsIV D off \<longleftrightarrow> containsIV (ivDomain nb) (ivAdd b off)"
    and "ivZero \<in> cells nbr0"
proof -
  obtain n0 n1 n2 where n: "nb = IntVect n0 n1 n2" by (cases nb)
  obtain b0 b1 b2 where bb: "b = IntVect b0 b1 b2" by (cases b)
  obtain x y z where o: "off = IntVect x y z" by (cases off)
  from nb have np: "1 \<le> n0" "1 \<le> n1" "1 \<le> n2" by (simp_all add: n ivLe_def ivUnit_def)
  from b have le: "0 \<le> b0" "b0 \<le> n0 - 1" "0 \<le> b1" "b1 \<le> n1 - 1" "0 \<le> b2" "b2 \<le> n2 - 1"
    by (simp_all add: n bb containsIV_def ivDomain_def ivLe_def ivZero_def ivSub_def ivUnit_def)
  have D: "D = Box (IntVect (- b0) (- b1) (- b2)) (IntVect (n0 - 1 - b0) (n1 - 1 - b1) (n2 - 1 - b2))"
    by (simp add: D_def relDomain_def shift_def ivNeg_def ivAdd_def ivSub_def ivZero_def ivUnit_def n bb)
  have PD: "PD = Box (IntVect (- b0 - of_bool (periodicDir P 0)) (- b1 - of_bool (periodicDir P 1))
                  (- b2 - of_bool (periodicDir P 2)))
         (IntVect (n0 - 1 - b0 + of_bool (periodicDir P 0)) (n1 - 1 - b1 + of_bool (periodicDir P 1))
                  (n2 - 1 - b2 + of_bool (periodicDir P 2)))"
    unfolding PD_def D_def [symmetric] D by (rule periodicDomain_components)
  have memg: "IntVect x' y' z' \<in> cells nbr0 \<longleftrightarrow>
      (- 1 \<le> x' \<and> x' \<le> 1 \<and> - b0 - of_bool (periodicDir P 0) \<le> x' \<and> x' \<le> n0 - 1 - b0 + of_bool (periodicDir P 0))
    \<and> (- 1 \<le> y' \<and> y' \<le> 1 \<and> - b1 - of_bool (periodicDir P 1) \<le> y' \<and> y' \<le> n1 - 1 - b1 + of_bool (periodicDir P 1))
    \<and> (- 1 \<le> z' \<and> z' \<le> 1 \<and> - b2 - of_bool (periodicDir P 2) \<le> z' \<and> z' \<le> n2 - 1 - b2 + of_bool (periodicDir P 2))"
    for x' y' z'
    unfolding nbr0_def PD_def [symmetric] PD cells_intersect
    by (auto simp: cells_def containsIV_def ivLe_def ivNeg_def ivUnit_def)
  note mem = memg [of x y z, folded o]
  show "off \<in> cells nbr0 \<longleftrightarrow>
           containsIV (Box (ivNeg ivUnit) ivUnit) off
           \<and> (\<forall>dir<3. periodicDir P dir
                  \<or> (0 \<le> ivAt (ivAdd b off) dir \<and> ivAt (ivAdd b off) dir \<le> ivAt nb dir - 1))"
    unfolding mem all_less_3 using le
    by (auto simp: containsIV_def ivLe_def ivNeg_def ivUnit_def o bb n ivAt_def ivAdd_def)
  show "containsIV D off \<longleftrightarrow> containsIV (ivDomain nb) (ivAdd b off)"
    unfolding D
    by (auto simp: containsIV_def ivLe_def ivDomain_def ivZero_def ivSub_def ivUnit_def ivAdd_def o bb n)
  show "ivZero \<in> cells nbr0"
    unfolding ivZero_def memg using le by simp
  {
    assume m: "off \<in> cells nbr0"
    have r0: "- 1 \<le> b0 + x" "b0 + x \<le> n0" and r1: "- 1 \<le> b1 + y" "b1 + y \<le> n1"
      and r2: "- 1 \<le> b2 + z" "b2 + z \<le> n2"
      using m le unfolding mem
      by (cases "periodicDir P 0"; cases "periodicDir P 1"; cases "periodicDir P 2"; simp)+
    have p0: "periodicDir P 0" if "b0 + x = - 1 \<or> b0 + x = n0"
      using m that le unfolding mem by (cases "periodicDir P 0") auto
    have p1: "periodicDir P 1" if "b1 + y = - 1 \<or> b1 + y = n1"
      using m that le unfolding mem by (cases "periodicDir P 1") auto
    have p2: "periodicDir P 2" if "b2 + z = - 1 \<or> b2 + z = n2"
      using m that le unfolding mem by (cases "periodicDir P 2") auto
    have inPD: "- b0 - of_bool (periodicDir P 0) \<le> x" "x \<le> n0 - 1 - b0 + of_bool (periodicDir P 0)"
      "- b1 - of_bool (periodicDir P 1) \<le> y" "y \<le> n1 - 1 - b1 + of_bool (periodicDir P 1)"
      "- b2 - of_bool (periodicDir P 2) \<le> z" "z \<le> n2 - 1 - b2 + of_bool (periodicDir P 2)"
      using m unfolding mem by simp_all
    have w: "wrapPosition nb (ivAdd b off) =
        IntVect (if b0 + x = - 1 then n0 - 1 else if b0 + x = n0 then 0 else b0 + x)
                (if b1 + y = - 1 then n1 - 1 else if b1 + y = n1 then 0 else b1 + y)
                (if b2 + z = - 1 then n2 - 1 else if b2 + z = n2 then 0 else b2 + z)"
      using wrap_1d [OF np(1) r0] wrap_1d [OF np(2) r1] wrap_1d [OF np(3) r2]
      by (simp add: wrapPosition_def n bb o ivAdd_def)
    show "containsIV (ivDomain nb) (wrapPosition nb (ivAdd b off))"
      unfolding w using np r0 r1 r2
      by (simp add: containsIV_def ivDomain_def ivLe_def ivZero_def ivSub_def ivUnit_def n)
    have s0: "ivAdd ivDefault off = off" by (simp add: ivAdd_def ivDefault_def o)
    have sides: "periodicSides P PD ! 0 = (if periodicDir P 0
          then (Box (IntVect (- b0 - 1) (- b1 - of_bool (periodicDir P 1)) (- b2 - of_bool (periodicDir P 2)))
                    (IntVect (- b0 - 1) (n1 - 1 - b1 + of_bool (periodicDir P 1)) (n2 - 1 - b2 + of_bool (periodicDir P 2))),
                Box (IntVect (n0 - b0) (- b1 - of_bool (periodicDir P 1)) (- b2 - of_bool (periodicDir P 2)))
                    (IntVect (n0 - b0) (n1 - 1 - b1 + of_bool (periodicDir P 1)) (n2 - 1 - b2 + of_bool (periodicDir P 2))))
          else (emptyBox, emptyBox))"
      "periodicSides P PD ! 1 = (if periodicDir P 1
          then (Box (IntVect (- b0 - of_bool (periodicDir P 0)) (- b1 - 1) (- b2 - of_bool (periodicDir P 2)))
                    (IntVect (n0 - 1 - b0 + of_bool (periodicDir P 0)) (- b1 - 1) (n2 - 1 - b2 + of_bool (periodicDir P 2))),
                Box (IntVect (- b0 - of_bool (periodicDir P 0)) (n1 - b1) (- b2 - of_bool (periodicDir P 2)))
                    (IntVect (n0 - 1 - b0 + of_bool (periodicDir P 0)) (n1 - b1) (n2 - 1 - b2 + of_bool (periodicDir P 2))))
          else (emptyBox, emptyBox))"
      "periodicSides P PD ! 2 = (if periodicDir P 2
          then (Box (IntVect (- b0 - of_bool (periodicDir P 0)) (- b1 - of_bool (periodicDir P 1)) (- b2 - 1))
                    (IntVect (n0 - 1 - b0 + of_bool (periodicDir P 0)) (n1 - 1 - b1 + of_bool (periodicDir P 1)) (- b2 - 1)),
                Box (IntVect (- b0 - of_bool (periodicDir P 0)) (- b1 - of_bool (periodicDir P 1)) (n2 - b2))
                    (IntVect (n0 - 1 - b0 + of_bool (periodicDir P 0)) (n1 - 1 - b1 + of_bool (periodicDir P 1)) (n2 - b2)))
          else (emptyBox, emptyBox))"
      unfolding PD periodicSides_components by simp_all
    have c0: "containsIV (fst (periodicSides P PD ! 0)) off \<longleftrightarrow> b0 + x = - 1"
      "containsIV (snd (periodicSides P PD ! 0)) off \<longleftrightarrow> b0 + x = n0"
      if "periodicDir P 0"
      unfolding sides using that inPD(3-6)
      by (auto simp: containsIV_def ivLe_def o)
    have c1: "containsIV (fst (periodicSides P PD ! 1)) off \<longleftrightarrow> b1 + y = - 1"
      "containsIV (snd (periodicSides P PD ! 1)) off \<longleftrightarrow> b1 + y = n1"
      if "periodicDir P 1"
      unfolding sides using that inPD(1,2,5,6)
      by (auto simp: containsIV_def ivLe_def o)
    have c2: "containsIV (fst (periodicSides P PD ! 2)) off \<longleftrightarrow> b2 + z = - 1"
      "containsIV (snd (periodicSides P PD ! 2)) off \<longleftrightarrow> b2 + z = n2"
      if "periodicDir P 2"
      unfolding sides using that inPD(1-4)
      by (auto simp: containsIV_def ivLe_def o)
    have e0: "b0 + (x + (if periodicDir P 0 \<and> containsIV (fst (periodicSides P PD ! 0)) off then n0 else 0)
           - (if periodicDir P 0 \<and> containsIV (snd (periodicSides P PD ! 0)) off then n0 else 0))
        = (if b0 + x = - 1 then n0 - 1 else if b0 + x = n0 then 0 else b0 + x)"
      using c0 p0 np(1) by (cases "periodicDir P 0") auto
    have e1: "b1 + (y + (if periodicDir P 1 \<and> containsIV (fst (periodicSides P PD ! 1)) off then n1 else 0)
           - (if periodicDir P 1 \<and> containsIV (snd (periodicSides P PD ! 1)) off then n1 else 0))
        = (if b1 + y = - 1 then n1 - 1 else if b1 + y = n1 then 0 else b1 + y)"
      using c1 p1 np(2) by (cases "periodicDir P 1") auto
    have e2: "b2 + (z + (if periodicDir P 2 \<and> containsIV (fst (periodicSides P PD ! 2)) off then n2 else 0)
           - (if periodicDir P 2 \<and> containsIV (snd (periodicSides P PD ! 2)) off then n2 else 0))
        = (if b2 + z = - 1 then n2 - 1 else if b2 + z = n2 then 0 else b2 + z)"
      using c2 p2 np(3) by (cases "periodicDir P 2") auto
    have "ivAdd b (periodicShift P (periodicSides P PD) nb off off) =
        IntVect (if b0 + x = - 1 then n0 - 1 else if b0 + x = n0 then 0 else b0 + x)
                (if b1 + y = - 1 then n1 - 1 else if b1 + y = n1 then 0 else b1 + y)
                (if b2 + z = - 1 then n2 - 1 else if b2 + z = n2 then 0 else b2 + z)"
      unfolding e0 [symmetric] e1 [symmetric] e2 [symmetric]
      by (subst (2) o, subst periodicShift_components) (simp only: ivAdd_def bb n IntVect.sel)
    then show "ivAdd b (periodicShift P (periodicSides P PD) nb (ivAdd ivDefault off) off)
             = wrapPosition nb (ivAdd b off)"
      unfolding w s0 .
  }
qed

text \<open>The skipping condition of \<^verbatim>\<open>setCurrent\<close>.\<close>

definition periodicSkip :: "PeriodicIterator \<Rightarrow> IntVect \<Rightarrow> bool" where
  "periodicSkip it v = (trimmed (pit_trim it) v \<or> containsIV (pit_ivDomain it) v)"

text \<open>How \<^verbatim>\<open>m_current\<close> follows the offset after \<^verbatim>\<open>setCurrent\<close>.\<close>

definition periodicCurrent :: "PeriodicIterator \<Rightarrow> bool" where
  "periodicCurrent it =
     (it_current it = pit_base it + linearNbrOffset (it_disjointBoxLayout it)
        (periodicShift (pit_periodic it) (pit_ivPeriodicDomainSide it)
           (m_numBox (it_disjointBoxLayout it))
           (ivAdd (pit_ivBase it) (PeriodicIterator_nbrDir it)) (PeriodicIterator_nbrDir it)))"

lemma PeriodicIterator_setCurrent_fields:
  "pit_nbrOffset (PeriodicIterator_setCurrent it)
     = BoxIterator_skipWhile (periodicSkip it) (pit_nbrOffset it)"
  "it_disjointBoxLayout (PeriodicIterator_setCurrent it) = it_disjointBoxLayout it"
  "pit_ivDomain (PeriodicIterator_setCurrent it) = pit_ivDomain it"
  "pit_ivPeriodicDomainSide (PeriodicIterator_setCurrent it) = pit_ivPeriodicDomainSide it"
  "pit_ivBase (PeriodicIterator_setCurrent it) = pit_ivBase it"
  "pit_base (PeriodicIterator_setCurrent it) = pit_base it"
  "pit_trim (PeriodicIterator_setCurrent it) = pit_trim it"
  "pit_periodic (PeriodicIterator_setCurrent it) = pit_periodic it"
  "periodicCurrent (PeriodicIterator_setCurrent it)"
  by (simp_all add: PeriodicIterator_setCurrent_def Let_def periodicSkip_def [abs_def]
      periodicCurrent_def periodicShift_def PeriodicIterator_nbrDir_def)

lemma periodicSkip_cong:
  "pit_trim s = pit_trim t \<Longrightarrow> pit_ivDomain s = pit_ivDomain t \<Longrightarrow> periodicSkip s = periodicSkip t"
  by (rule ext) (simp add: periodicSkip_def)

lemma PeriodicIterator_incr_fields:
  "pit_nbrOffset (PeriodicIterator_incr it)
     = BoxIterator_skipWhile (periodicSkip it) (BoxIterator_incr (pit_nbrOffset it))"
  "it_disjointBoxLayout (PeriodicIterator_incr it) = it_disjointBoxLayout it"
  "pit_ivDomain (PeriodicIterator_incr it) = pit_ivDomain it"
  "pit_ivPeriodicDomainSide (PeriodicIterator_incr it) = pit_ivPeriodicDomainSide it"
  "pit_ivBase (PeriodicIterator_incr it) = pit_ivBase it"
  "pit_base (PeriodicIterator_incr it) = pit_base it"
  "pit_trim (PeriodicIterator_incr it) = pit_trim it"
  "pit_periodic (PeriodicIterator_incr it) = pit_periodic it"
  "periodicCurrent (PeriodicIterator_incr it)"
  by (simp_all add: PeriodicIterator_incr_def PeriodicIterator_setCurrent_fields
      periodicSkip_cong [of "it\<lparr>pit_nbrOffset := BoxIterator_incr (pit_nbrOffset it)\<rparr>" it])

lemma PeriodicIterator_nbrDir_fun:
  "PeriodicIterator_nbrDir = (\<lambda>s. bit_current (pit_nbrOffset s))"
  by (rule ext) (simp add: PeriodicIterator_nbrDir_def)

lemma PeriodicIterator_states_offsets:
  "pit_nbrOffset s = BoxIterator_skipWhile (periodicSkip s) it \<Longrightarrow>
   map PeriodicIterator_nbrDir (PeriodicIterator_states s)
     = filter (\<lambda>v. \<not> periodicSkip s v) (BoxIterator_cells it)"
proof (induction s arbitrary: it rule: PeriodicIterator_states.induct)
  case (1 s)
  note f = BoxIterator_skipWhile_cells [of "periodicSkip s" it, folded "1.prems"]
  have sk: "periodicSkip (PeriodicIterator_incr s) = periodicSkip s"
    by (rule periodicSkip_cong) (simp_all add: PeriodicIterator_incr_fields)
  show ?case
  proof (cases "PeriodicIterator_ok s")
    case True
    have inc: "pit_nbrOffset (PeriodicIterator_incr s) =
        BoxIterator_skipWhile (periodicSkip (PeriodicIterator_incr s)) (BoxIterator_incr (pit_nbrOffset s))"
      unfolding sk by (rule PeriodicIterator_incr_fields(1))
    from "1.IH" [OF True inc] True show ?thesis
      by (subst PeriodicIterator_states.simps)
         (simp add: f sk PeriodicIterator_ok_def PeriodicIterator_nbrDir_fun)
  next
    case False
    then show ?thesis
      by (subst PeriodicIterator_states.simps)
         (simp add: f PeriodicIterator_ok_def)
  qed
qed

lemma PeriodicIterator_states_invariant:
  assumes "s \<in> set (PeriodicIterator_states s0)" and "periodicCurrent s0"
  shows "it_disjointBoxLayout s = it_disjointBoxLayout s0
       \<and> pit_ivPeriodicDomainSide s = pit_ivPeriodicDomainSide s0
       \<and> pit_ivBase s = pit_ivBase s0 \<and> pit_base s = pit_base s0
       \<and> pit_periodic s = pit_periodic s0 \<and> periodicCurrent s"
  using assms
proof (induction s0 rule: PeriodicIterator_states.induct)
  case (1 s0)
  show ?case
  proof (cases "PeriodicIterator_ok s0")
    case True
    then have "s = s0 \<or> s \<in> set (PeriodicIterator_states (PeriodicIterator_incr s0))"
      using "1.prems"(1) by (subst (asm) PeriodicIterator_states.simps) simp
    then show ?thesis
    proof
      assume "s = s0" then show ?thesis using "1.prems"(2) by simp
    next
      assume m: "s \<in> set (PeriodicIterator_states (PeriodicIterator_incr s0))"
      from "1.IH" [OF True m PeriodicIterator_incr_fields(9)] show ?thesis
        by (simp add: PeriodicIterator_incr_fields)
    qed
  next
    case False
    then show ?thesis using "1.prems"(1)
      by (subst (asm) PeriodicIterator_states.simps) simp
  qed
qed

text \<open>The fields of a freshly constructed PeriodicIterator.\<close>

lemma PeriodicIterator_new_fields:
  fixes lit :: "'a LayoutIterator_scheme" and P a_trim :: "32 word"
  defines "dbl \<equiv> it_disjointBoxLayout lit"
  defines "D \<equiv> relDomain (m_numBox dbl) (ivBaseOf (m_stride dbl) (it_current lit))"
  defines "nbr0 \<equiv> intersect (Box (ivNeg ivUnit) ivUnit) (periodicDomain P D)"
  defines "s \<equiv> PeriodicIterator_new lit a_trim P"
  shows "pit_nbrOffset s = BoxIterator_skipWhile (periodicSkip s)
            (BoxIterator_new (if containsBox D nbr0 then emptyBox else nbr0))"
    and "it_disjointBoxLayout s = dbl"
    and "pit_ivDomain s = D"
    and "pit_ivPeriodicDomainSide s = periodicSides P (periodicDomain P D)"
    and "pit_ivBase s = ivDefault"
    and "pit_base s = it_current lit"
    and "pit_trim s = a_trim OR TrimCenter"
    and "pit_periodic s = P"
    and "periodicCurrent s"
proof -
  let ?pre = "\<lparr> it_disjointBoxLayout = dbl, it_current = it_current lit, it_size = it_size lit,
             pit_nbrOffset = BoxIterator_new (if containsBox D nbr0 then emptyBox else nbr0),
             pit_ivDomain = D,
             pit_ivPeriodicDomain = periodicDomain P D,
             pit_ivPeriodicDomainSide = periodicSides P (periodicDomain P D),
             pit_ivBase = ivDefault,
             pit_base = it_current lit,
             pit_trim = a_trim OR TrimCenter,
             pit_periodic = P \<rparr>"
  have s: "s = PeriodicIterator_setCurrent ?pre"
    unfolding s_def PeriodicIterator_new_def Let_def
    by (simp add: dbl_def D_def nbr0_def relDomain_def periodicDomain_def periodicSides_def
        LayoutIterator_deref_def Let_def)
  have sk: "periodicSkip s = periodicSkip ?pre"
    unfolding s by (rule periodicSkip_cong) (simp_all add: PeriodicIterator_setCurrent_fields)
  show "pit_nbrOffset s = BoxIterator_skipWhile (periodicSkip s)
            (BoxIterator_new (if containsBox D nbr0 then emptyBox else nbr0))"
    unfolding sk unfolding s by (simp add: PeriodicIterator_setCurrent_fields)
  show "it_disjointBoxLayout s = dbl" "pit_ivDomain s = D"
    "pit_ivPeriodicDomainSide s = periodicSides P (periodicDomain P D)"
    "pit_ivBase s = ivDefault" "pit_base s = it_current lit" "pit_trim s = a_trim OR TrimCenter"
    "pit_periodic s = P" "periodicCurrent s"
    unfolding s by (simp_all add: PeriodicIterator_setCurrent_fields)
qed

lemma containsBox_cells: "containsBox D b \<Longrightarrow> v \<in> cells b \<Longrightarrow> containsIV D v"
  by (auto simp: containsBox_def cells_def containsIV_def ivLe_def)

lemma isEmpty_emptyBox: "isEmpty emptyBox"
  by (simp add: isEmpty_def emptyBox_def ivLe_def ivUnit_def ivZero_def)

text \<open>The offsets a PeriodicIterator yields, as a filter of the cropped stencil.\<close>

lemma PeriodicIterator_new_offsets:
  fixes lit :: "'a LayoutIterator_scheme" and P a_trim :: "32 word"
  assumes nb: "ivLe ivUnit (m_numBox (it_disjointBoxLayout lit))"
    and base: "containsIV (ivDomain (m_numBox (it_disjointBoxLayout lit)))
                 (ivBaseOf (m_stride (it_disjointBoxLayout lit)) (it_current lit))"
  shows "map PeriodicIterator_nbrDir (PeriodicIterator_states (PeriodicIterator_new lit a_trim P))
       = filter (\<lambda>v. \<not> (trimmed (a_trim OR TrimCenter) v
                        \<or> containsIV (relDomain (m_numBox (it_disjointBoxLayout lit))
                             (ivBaseOf (m_stride (it_disjointBoxLayout lit)) (it_current lit))) v))
           (fortranCells (intersect (Box (ivNeg ivUnit) ivUnit)
              (periodicDomain P (relDomain (m_numBox (it_disjointBoxLayout lit))
                 (ivBaseOf (m_stride (it_disjointBoxLayout lit)) (it_current lit))))))"
proof -
  let ?dbl = "it_disjointBoxLayout lit"
  let ?D = "relDomain (m_numBox ?dbl) (ivBaseOf (m_stride ?dbl) (it_current lit))"
  let ?nbr0 = "intersect (Box (ivNeg ivUnit) ivUnit) (periodicDomain P ?D)"
  let ?s = "PeriodicIterator_new lit a_trim P"
  note f = PeriodicIterator_new_fields [of lit a_trim P]
  have sk: "periodicSkip ?s = (\<lambda>v. trimmed (a_trim OR TrimCenter) v \<or> containsIV ?D v)"
    by (rule ext) (simp add: periodicSkip_def f)
  have z: "ivZero \<in> cells ?nbr0" by (rule periodic_geometry(5) [OF nb base])
  then have ne: "\<not> isEmpty ?nbr0" unfolding isEmpty_cells by blast
  have "filter (\<lambda>v. \<not> periodicSkip ?s v)
          (BoxIterator_cells (BoxIterator_new (if containsBox ?D ?nbr0 then emptyBox else ?nbr0)))
      = filter (\<lambda>v. \<not> periodicSkip ?s v) (fortranCells ?nbr0)"
  proof (cases "containsBox ?D ?nbr0")
    case True
    have "filter (\<lambda>v. \<not> periodicSkip ?s v) (fortranCells ?nbr0) = []"
      unfolding filter_empty_conv sk set_fortranCells
      using containsBox_cells [OF True] by blast
    then show ?thesis
      using True by (simp add: BoxIterator_cells_empty [OF isEmpty_emptyBox])
  next
    case False
    then show ?thesis by (simp add: BoxIterator_cells_fortran [OF ne])
  qed
  then show ?thesis
    using PeriodicIterator_states_offsets [OF f(1)] by (simp add: sk)
qed

text \<open>The offsets and boxes the loop over a PeriodicIterator yields in a constructed layout.\<close>

lemma PeriodicIterator_wrapped:
  fixes lit :: "'a LayoutIterator_scheme"
  assumes "\<not> isEmpty a_domain" and "ivLe ivUnit a_maxBoxSize" and "1 \<le> numProc"
    and "DisjointBoxLayout_define numProc procID a_domain a_maxBoxSize = Inr dbl"
    and "it_disjointBoxLayout lit = dbl" and "0 \<le> it_current lit" and "it_current lit < m_size dbl"
  shows "let ys = PeriodicIterator_states (PeriodicIterator_new lit a_trim a_periodic);
             ivBase = ivBaseOf (m_stride dbl) (it_current lit)
         in distinct (map PeriodicIterator_nbrDir ys)
          \<and> set (map PeriodicIterator_nbrDir ys) =
               {off. containsIV (Box (ivNeg ivUnit) ivUnit) off
                   \<and> \<not> containsIV (ivDomain (m_numBox dbl)) (ivAdd ivBase off)
                   \<and> (\<forall>dir<3. periodicDir a_periodic dir
                          \<or> (0 \<le> ivAt (ivAdd ivBase off) dir
                              \<and> ivAt (ivAdd ivBase off) dir \<le> ivAt (m_numBox dbl) dir - 1))
                   \<and> \<not> bit a_trim (nat (norm1 off))}
          \<and> (\<forall>s \<in> set ys.
                 containsIV (ivDomain (m_numBox dbl))
                   (wrapPosition (m_numBox dbl) (ivAdd ivBase (PeriodicIterator_nbrDir s)))
               \<and> globalIndex (LayoutIterator_deref s)
                   = linearNbrOffset dbl
                       (wrapPosition (m_numBox dbl) (ivAdd ivBase (PeriodicIterator_nbrDir s)))
               \<and> 0 \<le> globalIndex (LayoutIterator_deref s)
               \<and> globalIndex (LayoutIterator_deref s) < m_size dbl
               \<and> dblBox dbl (LayoutIterator_deref s)
                   = latticeBox a_domain a_maxBoxSize
                       (wrapPosition (m_numBox dbl) (ivAdd ivBase (PeriodicIterator_nbrDir s))))"
proof -
  note wf = assms(1-4)
  note d = DisjointBoxLayout_define_Inr [OF wf]
  let ?p = "it_current lit"
  let ?nb = "m_numBox dbl"
  let ?s0 = "PeriodicIterator_new lit a_trim a_periodic"
  let ?ys = "PeriodicIterator_states ?s0"
  let ?base = "ivBaseOf (m_stride dbl) ?p"
  let ?D = "relDomain ?nb ?base"
  let ?nbr0 = "intersect (Box (ivNeg ivUnit) ivUnit) (periodicDomain a_periodic ?D)"
  note pos = layout_position_of_index [OF wf assms(6,7)]
  have nbp: "ivLe ivUnit ?nb" using d(1) by (simp add: evenGeometry_def)
  have base: "containsIV (ivDomain ?nb) ?base" by (rule pos(1))
  note g = periodic_geometry(1) [OF nbp base, where P = a_periodic]
    periodic_geometry(2) [OF nbp base, where P = a_periodic]
    periodic_geometry(3) [OF nbp base, where P = a_periodic]
    periodic_geometry(4) [OF nbp base]
  note f = PeriodicIterator_new_fields [of lit a_trim a_periodic, unfolded assms(5)]
  have offs: "map PeriodicIterator_nbrDir ?ys
       = filter (\<lambda>v. \<not> (trimmed (a_trim OR TrimCenter) v \<or> containsIV ?D v)) (fortranCells ?nbr0)"
    using PeriodicIterator_new_offsets [of lit a_trim a_periodic] nbp base
    by (simp add: assms(5))
  have dist: "distinct (map PeriodicIterator_nbrDir ?ys)"
    unfolding offs by (simp add: distinct_fortranCells)
  have mem: "off \<in> set (map PeriodicIterator_nbrDir ?ys) \<longleftrightarrow>
        containsIV (Box (ivNeg ivUnit) ivUnit) off
        \<and> \<not> containsIV (ivDomain ?nb) (ivAdd ?base off)
        \<and> (\<forall>dir<3. periodicDir a_periodic dir
               \<or> (0 \<le> ivAt (ivAdd ?base off) dir \<and> ivAt (ivAdd ?base off) dir \<le> ivAt ?nb dir - 1))
        \<and> \<not> bit a_trim (nat (norm1 off))" for off
  proof -
    have nz: "off \<noteq> ivZero" if "\<not> containsIV (ivDomain ?nb) (ivAdd ?base off)"
      using that base by auto
    show ?thesis
      unfolding offs set_filter set_fortranCells mem_Collect_eq g(1) g(4) trimmed_TrimCenter
      using nz by blast
  qed
  have inn: "PeriodicIterator_nbrDir s \<in> cells ?nbr0" if "s \<in> set ?ys" for s
  proof -
    have "PeriodicIterator_nbrDir s \<in> set (map PeriodicIterator_nbrDir ?ys)" using that by simp
    then show ?thesis unfolding offs by (simp add: set_fortranCells)
  qed
  have each: "containsIV (ivDomain ?nb) (wrapPosition ?nb (ivAdd ?base (PeriodicIterator_nbrDir s)))
               \<and> globalIndex (LayoutIterator_deref s)
                   = linearNbrOffset dbl (wrapPosition ?nb (ivAdd ?base (PeriodicIterator_nbrDir s)))
               \<and> 0 \<le> globalIndex (LayoutIterator_deref s)
               \<and> globalIndex (LayoutIterator_deref s) < m_size dbl
               \<and> dblBox dbl (LayoutIterator_deref s)
                   = latticeBox a_domain a_maxBoxSize
                       (wrapPosition ?nb (ivAdd ?base (PeriodicIterator_nbrDir s)))"
    if s: "s \<in> set ?ys" for s
  proof -
    let ?off = "PeriodicIterator_nbrDir s"
    let ?w = "wrapPosition ?nb (ivAdd ?base ?off)"
    from PeriodicIterator_states_invariant [OF s f(9)]
    have c: "it_disjointBoxLayout s = dbl"
      "pit_ivPeriodicDomainSide s = periodicSides a_periodic (periodicDomain a_periodic ?D)"
      "pit_ivBase s = ivDefault" "pit_base s = ?p" "pit_periodic s = a_periodic"
      "periodicCurrent s"
      by (simp_all add: f)
    have inD: "containsIV (ivDomain ?nb) ?w" by (rule g(3) [OF inn [OF s]])
    have "it_current s = ?p + linearNbrOffset dbl
        (periodicShift a_periodic (periodicSides a_periodic (periodicDomain a_periodic ?D)) ?nb
           (ivAdd ivDefault ?off) ?off)"
      using c(6) unfolding periodicCurrent_def c(1-5) .
    also have "\<dots> = linearNbrOffset dbl (ivAdd ?base
        (periodicShift a_periodic (periodicSides a_periodic (periodicDomain a_periodic ?D)) ?nb
           (ivAdd ivDefault ?off) ?off))"
      unfolding linearNbrOffset_add pos(2) ..
    also have "\<dots> = linearNbrOffset dbl ?w"
      unfolding g(2) [OF inn [OF s]] ..
    finally have cur: "it_current s = linearNbrOffset dbl ?w" .
    note ip = layout_index_of_position [OF wf inD]
    show ?thesis
      using inD ip(1,2) ip(3) [of "it_current s - localIdxBegin dbl"]
      unfolding cur [symmetric] by (simp add: LayoutIterator_deref_def c(1))
  qed
  show ?thesis
    unfolding Let_def using dist mem each by blast
qed

text \<open>
  C4.  Let \<open>lit\<close> point at position \<open>p\<close> of a constructed layout, whose box sits at the
  lattice position \<open>ivBase\<close>.  For every trim mask and every periodic mask the loop over
  \<^verbatim>\<open>PeriodicIterator(lit, trim, periodic)\<close> yields each offset \<open>off\<close> of the 3x3x3 stencil
  exactly once for which \<open>ivBase + off\<close> lies outside the lattice, leaves the lattice only in
  directions the mask enables, and whose codimension is not trimmed, and no other offset.
  \<^verbatim>\<open>nbrDir()\<close> is that outward offset, and the BoxIndex yielded with it is the one of the
  box at the wrapped-around position (\<open>ivBase + off\<close> taken modulo the lattice size).
\<close>

theorem PeriodicIterator_enumerates_wrapped:
  fixes lit :: "'a LayoutIterator_scheme"
  assumes "\<not> isEmpty a_domain" and "ivLe ivUnit a_maxBoxSize" and "1 \<le> numProc"
    and "DisjointBoxLayout_define numProc procID a_domain a_maxBoxSize = Inr dbl"
    and "it_disjointBoxLayout lit = dbl" and "0 \<le> it_current lit" and "it_current lit < m_size dbl"
  shows "let ys = PeriodicIterator_states (PeriodicIterator_new lit a_trim a_periodic);
             ivBase = ivBaseOf (m_stride dbl) (it_current lit)
         in distinct (map PeriodicIterator_nbrDir ys)
          \<and> set (map PeriodicIterator_nbrDir ys) =
               {off. containsIV (Box (ivNeg ivUnit) ivUnit) off
                   \<and> \<not> containsIV (ivDomain (m_numBox dbl)) (ivAdd ivBase off)
                   \<and> (\<forall>dir<3. periodicDir a_periodic dir
                          \<or> (0 \<le> ivAt (ivAdd ivBase off) dir
                              \<and> ivAt (ivAdd ivBase off) dir \<le> ivAt (m_numBox dbl) dir - 1))
                   \<and> \<not> bit a_trim (nat (norm1 off))}
          \<and> (\<forall>s \<in> set ys.
                 containsIV (ivDomain (m_numBox dbl))
                   (wrapPosition (m_numBox dbl) (ivAdd ivBase (PeriodicIterator_nbrDir s)))
               \<and> globalIndex (LayoutIterator_deref s)
                   = linearNbrOffset dbl
                       (wrapPosition (m_numBox dbl) (ivAdd ivBase (PeriodicIterator_nbrDir s)))
               \<and> 0 \<le> globalIndex (LayoutIterator_deref s)
               \<and> globalIndex (LayoutIterator_deref s) < m_size dbl
               \<and> dblBox dbl (LayoutIterator_deref s)
                   = latticeBox a_domain a_maxBoxSize
                       (wrapPosition (m_numBox dbl) (ivAdd ivBase (PeriodicIterator_nbrDir s))))"
  by (rule PeriodicIterator_wrapped [OF assms])


theorem PeriodicIterator_enumerates_wrapped_witness:
  "\<exists>dbl. DisjointBoxLayout_define 1 0 (Box (IntVect 0 0 0) (IntVect 8 8 8)) (IntVect 3 3 3) = Inr dbl
     \<and> distinct (map PeriodicIterator_nbrDir (PeriodicIterator_states (PeriodicIterator_new
           (LayoutIterator_new dbl) TrimCorner (PeriodicX OR PeriodicY))))
     \<and> (\<exists>s \<in> set (PeriodicIterator_states (PeriodicIterator_new
           (LayoutIterator_new dbl) TrimCorner (PeriodicX OR PeriodicY))).
           PeriodicIterator_nbrDir s = IntVect (- 1) 0 0
           \<and> globalIndex (LayoutIterator_deref s) = 2)"
proof -
  have ne: "\<not> isEmpty (Box (IntVect 0 0 0) (IntVect 8 8 8))" by (simp add: isEmpty_def ivLe_def)
  have mb: "ivLe ivUnit (IntVect 3 3 3)" by (simp add: ivLe_def ivUnit_def)
  from define_example_27boxes obtain dbl where
    d: "DisjointBoxLayout_define 1 0 (Box (IntVect 0 0 0) (IntVect 8 8 8)) (IntVect 3 3 3) = Inr dbl"
    and f: "m_stride dbl = IntVect 1 3 9" "m_numBox dbl = IntVect 3 3 3" "m_size dbl = 27"
    by blast
  let ?lit = "LayoutIterator_new dbl"
  let ?ys = "PeriodicIterator_states (PeriodicIterator_new ?lit TrimCorner (PeriodicX OR PeriodicY))"
  have b: "ivBaseOf (m_stride dbl) 0 = IntVect 0 0 0"
    by (simp add: f ivBaseOf_def Let_def ivAt_def ivSet_def ivDefault_def)
  have l: "it_disjointBoxLayout ?lit = dbl" "0 \<le> it_current ?lit" "it_current ?lit < m_size dbl"
    by (simp_all add: LayoutIterator_new_def f)
  have cur: "it_current ?lit = 0" by (simp add: LayoutIterator_new_def)
  have px: "periodicDir (PeriodicX OR PeriodicY) 0"
    by (simp add: periodicDir_def PeriodicX_def PeriodicY_def)
  have tr: "\<not> bit TrimCorner (nat (norm1 (IntVect (- 1) 0 0)))"
    by (simp add: TrimCorner_def norm1_def bit_push_bit_iff)
  note t = PeriodicIterator_enumerates_wrapped [OF ne mb order_refl d l,
      of TrimCorner "PeriodicX OR PeriodicY", unfolded Let_def cur b]
  from t have dist: "distinct (map PeriodicIterator_nbrDir ?ys)" by blast
  from t have "IntVect (- 1) 0 0 \<in> set (map PeriodicIterator_nbrDir ?ys)"
    using px tr
    by (simp add: all_less_3 containsIV_def ivLe_def ivNeg_def ivUnit_def ivAdd_def ivAt_def f
        ivDomain_def ivZero_def ivSub_def)
  then obtain s where s: "s \<in> set ?ys" "PeriodicIterator_nbrDir s = IntVect (- 1) 0 0" by auto
  from t s(1) have "globalIndex (LayoutIterator_deref s)
      = linearNbrOffset dbl (wrapPosition (m_numBox dbl) (ivAdd (IntVect 0 0 0) (PeriodicIterator_nbrDir s)))"
    by blast
  then have "globalIndex (LayoutIterator_deref s) = 2"
    by (simp add: s(2) f wrapPosition_def ivAdd_def linearNbrOffset_def ivAt_def)
  with d dist s show ?thesis by blast
qed

text \<open>
  The iterator states of the loop \<^verbatim>\<open>for (DataIterator dit(dbl); dit.ok(); ++dit)\<close> (or of
  the same loop over a LayoutIterator), for bodies that use the iterator itself.
\<close>

function LayoutIterator_states :: "LayoutIterator \<Rightarrow> LayoutIterator list" where
  "LayoutIterator_states it =
     (if LayoutIterator_ok it then it # LayoutIterator_states (LayoutIterator_incr it) else [])"
  by pat_completeness auto
termination
  by (relation "measure (\<lambda>it. nat (it_size it - it_current it))")
     (simp_all add: LayoutIterator_ok_def LayoutIterator_incr_def)

declare LayoutIterator_states.simps [simp del]

section \<open>Copier.H\<close>

text \<open>
  The buffers of a motion item are represented by their allocated size in bytes
  (\<open>None\<close> is the null pointer); their contents belong to the state of an exchange.
\<close>

record Motion2Way =
  m_bidxLocal :: BoxIndex
  m_bidxRemote :: BoxIndex
  m_regionRecv :: Box
  m_regionSend :: Box
  m_regionSendRemote :: Box
  m_localProcID :: int
  m_remoteProcID :: int
  m_tagSend :: int
  m_tagRecv :: int
  m_sendDir :: IntVect
  m_compRecvFlags :: "32 word"
  m_compSendFlags :: "32 word"
  m_recvBuffer :: "int option"
  m_sendBuffer :: "int option"

text \<open>\<^verbatim>\<open>Motion2Way::uniqueTag\<close>\<close>

definition uniqueTag :: "BoxIndex \<Rightarrow> IntVect \<Rightarrow> int" where
  "uniqueTag a_bidxSend a_sendDir =
     27 * globalIndex a_bidxSend
       + ((ivAt a_sendDir 0 + 1) + 3 * (ivAt a_sendDir 1 + 1) + 9 * (ivAt a_sendDir 2 + 1))"

text \<open>\<^verbatim>\<open>Motion2Way::isLocal\<close>\<close>

definition isLocal :: "Motion2Way \<Rightarrow> bool" where
  "isLocal m = (m_localProcID m = m_remoteProcID m)"

text \<open>The constructor; \<^verbatim>\<open>std::numeric_limits<unsigned>::max()\<close> is the all-ones word.\<close>

definition Motion2Way_new ::
  "int \<Rightarrow> DisjointBoxLayout \<Rightarrow> BoxIndex \<Rightarrow> BoxIndex \<Rightarrow> Box \<Rightarrow> Box \<Rightarrow> Box \<Rightarrow> IntVect \<Rightarrow> Motion2Way" where
  "Motion2Way_new a_bytesPerCell a_disjointBoxLayout a_bidxLocal a_bidxRemote
       a_regionRecv a_regionSend a_regionSendRemote a_sendDir =
     (let m = \<lparr> m_bidxLocal = a_bidxLocal,
                m_bidxRemote = a_bidxRemote,
                m_regionRecv = a_regionRecv,
                m_regionSend = a_regionSend,
                m_regionSendRemote = a_regionSendRemote,
                m_localProcID = dblProc a_disjointBoxLayout a_bidxLocal,
                m_remoteProcID = dblProc a_disjointBoxLayout a_bidxRemote,
                m_tagSend = uniqueTag a_bidxLocal a_sendDir,
                m_tagRecv = uniqueTag a_bidxRemote (ivNeg a_sendDir),
                m_sendDir = a_sendDir,
                m_compRecvFlags = - 1,
                m_compSendFlags = - 1,
                m_recvBuffer = None,
                m_sendBuffer = None \<rparr>
      in if \<not> isLocal m
         then m \<lparr> m_recvBuffer := Some (a_bytesPerCell * boxSize a_regionRecv),
                  m_sendBuffer := Some (a_bytesPerCell * boxSize a_regionSend) \<rparr>
         else m)"

text \<open>
  The request handles (\<^verbatim>\<open>m_mpiRequest\<close>) and the identity tag of the layout (\<^verbatim>\<open>m_tag\<close>,
  the address of its box array) are not part of the model.
\<close>

record Copier =
  m_bytesPerCell :: int
  m_startComp :: int
  m_endComp :: int
  m_motionItem :: "Motion2Way list"
  m_midxForReq :: "nat list"
  m_numReq :: int

text \<open>
  The body of the loop over the interior neighbours of one local box, and of the loop over its
  periodic neighbours: the motion item each iteration appends.  \<open>use_mpi\<close> is the build flag
  \<^verbatim>\<open>USE_MPI\<close>.
\<close>

definition interiorMotion ::
  "bool \<Rightarrow> int \<Rightarrow> DisjointBoxLayout \<Rightarrow> int \<Rightarrow> LayoutIterator \<Rightarrow> Box \<Rightarrow> NeighborIterator
     \<Rightarrow> Motion2Way" where
  "interiorMotion use_mpi bytesPerCell a_disjointBoxLayout a_numGhost dit localBox nbrit =
     (let remoteBox = dblBox a_disjointBoxLayout (LayoutIterator_deref nbrit);
          regionRecv = localBox;
          regionRecv = grow regionRecv a_numGhost;
          regionRecv = intersect regionRecv remoteBox;
          regionSend = (if use_mpi
                        then (let remoteBox = grow remoteBox a_numGhost;
                                  regionSend = localBox
                              in intersect regionSend remoteBox)
                        else emptyBox)
      in Motion2Way_new bytesPerCell a_disjointBoxLayout
           (LayoutIterator_deref dit) (LayoutIterator_deref nbrit)
           regionRecv regionSend regionRecv (NeighborIterator_nbrDir nbrit))"

definition periodicMotion ::
  "bool \<Rightarrow> int \<Rightarrow> DisjointBoxLayout \<Rightarrow> int \<Rightarrow> LayoutIterator \<Rightarrow> Box \<Rightarrow> PeriodicIterator
     \<Rightarrow> Motion2Way" where
  "periodicMotion use_mpi bytesPerCell a_disjointBoxLayout a_numGhost dit localBox perit =
     (let remoteBox = dblBox a_disjointBoxLayout (LayoutIterator_deref perit);
          shiftDir = PeriodicIterator_nbrDir perit;
          shiftBy = ivAdd (ivSub (loVect localBox) (loVect remoteBox))
                          (ivMul shiftDir (dimensions localBox));
          remoteBox = shift remoteBox shiftBy;
          regionRecv = localBox;
          regionRecv = grow regionRecv a_numGhost;
          regionRecv = intersect regionRecv remoteBox;
          regionSend = (if use_mpi
                        then (let remoteBox = grow remoteBox a_numGhost;
                                  regionSend = localBox
                              in intersect regionSend remoteBox)
                        else emptyBox);
          regionSendRemote = regionRecv;
          regionSendRemote = shift regionSendRemote (ivNeg shiftBy)
      in Motion2Way_new bytesPerCell a_disjointBoxLayout
           (LayoutIterator_deref dit) (LayoutIterator_deref perit)
           regionRecv regionSend regionSendRemote (PeriodicIterator_nbrDir perit))"

text \<open>The motion items appended for one position of the DataIterator.\<close>

definition boxMotions ::
  "bool \<Rightarrow> int \<Rightarrow> DisjointBoxLayout \<Rightarrow> int \<Rightarrow> 32 word \<Rightarrow> 32 word \<Rightarrow> Box \<Rightarrow> LayoutIterator
     \<Rightarrow> Motion2Way list" where
  "boxMotions use_mpi bytesPerCell a_disjointBoxLayout a_numGhost a_periodic a_trim
       periodicTestDomain dit =
     (let localBox = dblBox a_disjointBoxLayout (LayoutIterator_deref dit)
      in map (interiorMotion use_mpi bytesPerCell a_disjointBoxLayout a_numGhost dit localBox)
             (NeighborIterator_states (NeighborIterator_new dit a_trim (Box (ivNeg ivUnit) ivUnit)))
         @ (if \<not> containsBox periodicTestDomain localBox
            then map (periodicMotion use_mpi bytesPerCell a_disjointBoxLayout a_numGhost dit localBox)
                     (PeriodicIterator_states (PeriodicIterator_new dit a_trim a_periodic))
            else []))"

text \<open>
  \<^verbatim>\<open>Copier::defineExchangeDBL<T>\<close>; \<open>sizeofT\<close> is \<^verbatim>\<open>sizeof(T)\<close>.  The predicted number
  of motion items only reserves capacity and is left out.  The index list
  \<^verbatim>\<open>m_midxForReq\<close> exists only with \<^verbatim>\<open>USE_MPI\<close>.
\<close>

definition defineExchangeDBL ::
  "bool \<Rightarrow> int \<Rightarrow> DisjointBoxLayout \<Rightarrow> int \<Rightarrow> int \<Rightarrow> int \<Rightarrow> 32 word \<Rightarrow> 32 word \<Rightarrow> error + Copier" where
  "defineExchangeDBL use_mpi sizeofT a_disjointBoxLayout a_numGhost a_startComp a_numComp
       a_periodic a_trim =
     (if \<not> a_startComp \<ge> 0 then Inl AssertFailed
      else if \<not> a_numComp > 0 then Inl AssertFailed
      else
      let bytesPerCell = sizeofT * a_numComp;
          motionItem =
            (if a_numGhost > 0 then
               (let periodicTestDomain =
                      fold (\<lambda>dir b. if periodicDir a_periodic dir then growDir b (- 1) dir else b)
                           [0, 1, 2] (problemDomain a_disjointBoxLayout)
                in concat (map (boxMotions use_mpi bytesPerCell a_disjointBoxLayout a_numGhost
                                  a_periodic a_trim periodicTestDomain)
                               (LayoutIterator_states (DataIterator_new a_disjointBoxLayout))))
             else [])
      in Inr \<lparr> m_bytesPerCell = bytesPerCell,
               m_startComp = a_startComp,
               m_endComp = a_startComp + a_numComp,
               m_motionItem = motionItem,
               m_midxForReq = (if use_mpi
                               then filter (\<lambda>i. \<not> isLocal (motionItem ! i)) [0 ..< length motionItem]
                               else []),
               m_numReq = 2 * int (length (filter (\<lambda>m. \<not> isLocal m) motionItem)) \<rparr>)"

subsection \<open>The items of a plan\<close>

lemma LayoutIterator_states_eq:
  "LayoutIterator_states it =
     map (\<lambda>g. it \<lparr> it_current := g \<rparr>) [it_current it .. it_size it - 1]"
proof (induction it rule: LayoutIterator_states.induct)
  case (1 it)
  show ?case
  proof (cases "LayoutIterator_ok it")
    case True
    then have lt: "it_current it < it_size it" by (simp add: LayoutIterator_ok_def)
    have up: "[it_current it .. it_size it - 1]
        = it_current it # [it_current it + 1 .. it_size it - 1]"
      using lt by (simp add: upto_rec1)
    show ?thesis
      using "1.IH" [OF True] True
      by (subst LayoutIterator_states.simps) (simp add: up LayoutIterator_incr_def)
  next
    case False
    then show ?thesis
      by (subst LayoutIterator_states.simps) (simp add: LayoutIterator_ok_def)
  qed
qed

lemma DataIterator_states:
  "LayoutIterator_states (DataIterator_new dbl) =
     map (\<lambda>g. \<lparr> it_disjointBoxLayout = dbl, it_current = g, it_size = localIdxEnd dbl \<rparr>)
         [localIdxBegin dbl .. localIdxEnd dbl - 1]"
  unfolding LayoutIterator_states_eq
  by (simp add: DataIterator_new_def LayoutIterator_new_def)

lemma Motion2Way_new_fields:
  "m_bidxLocal (Motion2Way_new bpc dbl bl br rr rs rsr d) = bl"
  "m_bidxRemote (Motion2Way_new bpc dbl bl br rr rs rsr d) = br"
  "m_regionRecv (Motion2Way_new bpc dbl bl br rr rs rsr d) = rr"
  "m_regionSend (Motion2Way_new bpc dbl bl br rr rs rsr d) = rs"
  "m_regionSendRemote (Motion2Way_new bpc dbl bl br rr rs rsr d) = rsr"
  "m_localProcID (Motion2Way_new bpc dbl bl br rr rs rsr d) = dblProc dbl bl"
  "m_remoteProcID (Motion2Way_new bpc dbl bl br rr rs rsr d) = dblProc dbl br"
  "m_tagSend (Motion2Way_new bpc dbl bl br rr rs rsr d) = uniqueTag bl d"
  "m_tagRecv (Motion2Way_new bpc dbl bl br rr rs rsr d) = uniqueTag br (ivNeg d)"
  "m_sendDir (Motion2Way_new bpc dbl bl br rr rs rsr d) = d"
  "m_compRecvFlags (Motion2Way_new bpc dbl bl br rr rs rsr d) = - 1"
  "m_recvBuffer (Motion2Way_new bpc dbl bl br rr rs rsr d)
     = (if dblProc dbl bl = dblProc dbl br then None else Some (bpc * boxSize rr))"
  "m_sendBuffer (Motion2Way_new bpc dbl bl br rr rs rsr d)
     = (if dblProc dbl bl = dblProc dbl br then None else Some (bpc * boxSize rs))"
  by (simp_all add: Motion2Way_new_def Let_def isLocal_def)

text \<open>Every item of a plan was appended by one of the two loops, for a local box.\<close>

lemma plan_item_cases:
  assumes cp: "defineExchangeDBL use_mpi sizeofT dbl a_numGhost a_startComp a_numComp
                 a_periodic a_trim = Inr cp"
    and m: "m \<in> set (m_motionItem cp)"
  obtains (interior) p s where "localIdxBegin dbl \<le> p" "p < localIdxEnd dbl"
      "s \<in> set (NeighborIterator_states (NeighborIterator_new
          \<lparr> it_disjointBoxLayout = dbl, it_current = p, it_size = localIdxEnd dbl \<rparr>
          a_trim (Box (ivNeg ivUnit) ivUnit)))"
      "m = interiorMotion use_mpi (sizeofT * a_numComp) dbl a_numGhost
          \<lparr> it_disjointBoxLayout = dbl, it_current = p, it_size = localIdxEnd dbl \<rparr>
          (dblBox dbl (BoxIndex p (p - localIdxBegin dbl))) s"
  | (periodic) p s where "localIdxBegin dbl \<le> p" "p < localIdxEnd dbl"
      "s \<in> set (PeriodicIterator_states (PeriodicIterator_new
          \<lparr> it_disjointBoxLayout = dbl, it_current = p, it_size = localIdxEnd dbl \<rparr>
          a_trim a_periodic))"
      "m = periodicMotion use_mpi (sizeofT * a_numComp) dbl a_numGhost
          \<lparr> it_disjointBoxLayout = dbl, it_current = p, it_size = localIdxEnd dbl \<rparr>
          (dblBox dbl (BoxIndex p (p - localIdxBegin dbl))) s"
proof -
  from cp have items: "m_motionItem cp =
      (if a_numGhost > 0 then
         concat (map (boxMotions use_mpi (sizeofT * a_numComp) dbl a_numGhost a_periodic a_trim
             (fold (\<lambda>dir b. if periodicDir a_periodic dir then growDir b (- 1) dir else b)
                   [0, 1, 2] (problemDomain dbl)))
           (LayoutIterator_states (DataIterator_new dbl)))
       else [])"
    by (auto simp: defineExchangeDBL_def Let_def split: if_splits)
  from m obtain p where p: "localIdxBegin dbl \<le> p" "p < localIdxEnd dbl"
    and mm: "m \<in> set (boxMotions use_mpi (sizeofT * a_numComp) dbl a_numGhost a_periodic a_trim
             (fold (\<lambda>dir b. if periodicDir a_periodic dir then growDir b (- 1) dir else b)
                   [0, 1, 2] (problemDomain dbl))
             \<lparr> it_disjointBoxLayout = dbl, it_current = p, it_size = localIdxEnd dbl \<rparr>)"
    unfolding items DataIterator_states by (auto split: if_splits)
  from mm show thesis
    unfolding boxMotions_def Let_def
    using p interior periodic
    by (auto simp: LayoutIterator_deref_def split: if_splits)
qed

lemma local_index_in_layout:
  assumes ne: "\<not> isEmpty d" and mb: "ivLe ivUnit M" and np: "1 \<le> numProc"
    and ok: "DisjointBoxLayout_define numProc procID d M = Inr dbl"
    and pr: "0 \<le> procID" "procID < numProc"
    and p: "localIdxBegin dbl \<le> p" "p < localIdxEnd dbl"
  shows "0 \<le> p" and "p < m_size dbl" and "dblProc dbl (BoxIndex p l) = procID"
proof -
  note f = DisjointBoxLayout_define_Inr [OF ne mb np ok]
  let ?B = "m_numLocalBox dbl"
  have b: "procID * ?B \<le> p" "p < procID * ?B + ?B"
    using p by (simp_all add: localIdxBegin_def localIdxEnd_def f(7))
  have "0 \<le> procID * ?B" using pr(1) f(6) by simp
  then show p0: "0 \<le> p" using b(1) by simp
  have "(procID + 1) * ?B \<le> numProc * ?B"
    using pr(2) f(6) by (intro mult_right_mono) simp_all
  then show p1: "p < m_size dbl" using b(2) by (simp add: f(5) algebra_simps)
  show "dblProc dbl (BoxIndex p l) = procID"
    using dblProc_owner_iff [OF ne mb np pr(1) ok p0 p1, of l] b by simp
qed

lemma dimensions_latticeBox: "dimensions (latticeBox d M v) = M"
  by (cases d; cases M; cases v; cases "loVect d")
     (simp add: dimensions_def latticeBox_def ivAdd_def ivSub_def ivMul_def ivUnit_def)

lemma shift_latticeBox:
  "shift (latticeBox d M w)
     (ivAdd (ivSub (loVect (latticeBox d M v)) (loVect (latticeBox d M w))) (ivMul off M))
   = latticeBox d M (ivAdd v off)"
  by (cases M; cases v; cases w; cases off; cases "loVect d")
     (simp add: shift_def latticeBox_def ivAdd_def ivSub_def ivMul_def ivUnit_def algebra_simps)

text \<open>The item the interior loop appends for a neighbour \<open>s\<close> of the box with index \<open>p\<close>.\<close>

lemma interior_item:
  fixes a_domain a_maxBoxSize dbl p a_trim s use_mpi bpc a_numGhost l
  defines "dit \<equiv> \<lparr> it_disjointBoxLayout = dbl, it_current = p, it_size = localIdxEnd dbl \<rparr>"
  defines "m \<equiv> interiorMotion use_mpi bpc dbl a_numGhost dit (dblBox dbl (BoxIndex p l)) s"
  defines "ivBase \<equiv> ivBaseOf (m_stride dbl) p"
  defines "L \<equiv> latticeBox a_domain a_maxBoxSize ivBase"
  defines "R \<equiv> latticeBox a_domain a_maxBoxSize (ivAdd ivBase (m_sendDir m))"
  assumes wf: "\<not> isEmpty a_domain" "ivLe ivUnit a_maxBoxSize" "1 \<le> numProc"
      "DisjointBoxLayout_define numProc procID a_domain a_maxBoxSize = Inr dbl"
    and p: "0 \<le> p" "p < m_size dbl"
    and s: "s \<in> set (NeighborIterator_states
               (NeighborIterator_new dit a_trim (Box (ivNeg ivUnit) ivUnit)))"
  shows "m_bidxLocal m = BoxIndex p (p - localIdxBegin dbl)"
    and "m_sendDir m = NeighborIterator_nbrDir s"
    and "containsIV (Box (ivNeg ivUnit) ivUnit) (m_sendDir m)"
    and "m_sendDir m \<noteq> ivZero"
    and "containsIV (ivDomain (m_numBox dbl)) (ivAdd ivBase (m_sendDir m))"
    and "dblBox dbl (m_bidxLocal m) = L"
    and "dblBox dbl (m_bidxRemote m) = R"
    and "m_regionRecv m = intersect (grow L a_numGhost) R"
    and "m_regionSend m = (if use_mpi then intersect L (grow R a_numGhost) else emptyBox)"
    and "m_regionSendRemote m = m_regionRecv m"
    and "m_tagSend m = uniqueTag (m_bidxLocal m) (m_sendDir m)"
    and "m_tagRecv m = uniqueTag (m_bidxRemote m) (ivNeg (m_sendDir m))"
    and "0 \<le> globalIndex (m_bidxRemote m)" and "globalIndex (m_bidxRemote m) < m_size dbl"
proof -
  have dd: "it_disjointBoxLayout dit = dbl" "it_current dit = p"
    "LayoutIterator_deref dit = BoxIndex p (p - localIdxBegin dbl)"
    by (simp_all add: dit_def LayoutIterator_deref_def)
  note n = NeighborIterator_stencil [OF wf dd(1), of a_trim, unfolded Let_def dd]
  from n p have box: "dblBox dbl (BoxIndex p (p - localIdxBegin dbl))
      = latticeBox a_domain a_maxBoxSize (ivBaseOf (m_stride dbl) p)"
    by blast
  have same: "dblBox dbl (BoxIndex p l) = dblBox dbl (BoxIndex p (p - localIdxBegin dbl))"
    by (simp add: dblBox_def)
  from n p s have mem: "NeighborIterator_nbrDir s \<in>
      {off. containsIV (Box (ivNeg ivUnit) ivUnit) off
          \<and> containsIV (ivDomain (m_numBox dbl)) (ivAdd (ivBaseOf (m_stride dbl) p) off)
          \<and> off \<noteq> ivZero \<and> \<not> bit a_trim (nat (norm1 off))}"
    by (metis (no_types, lifting) image_eqI set_map)
  from n p s have rb: "dblBox dbl (LayoutIterator_deref s)
      = latticeBox a_domain a_maxBoxSize
          (ivAdd (ivBaseOf (m_stride dbl) p) (NeighborIterator_nbrDir s))"
    and ri: "0 \<le> globalIndex (LayoutIterator_deref s)"
      "globalIndex (LayoutIterator_deref s) < m_size dbl"
    by blast+
  show "m_bidxLocal m = BoxIndex p (p - localIdxBegin dbl)"
    and sd: "m_sendDir m = NeighborIterator_nbrDir s"
    and "m_regionSendRemote m = m_regionRecv m"
    and "m_tagSend m = uniqueTag (m_bidxLocal m) (m_sendDir m)"
    and "m_tagRecv m = uniqueTag (m_bidxRemote m) (ivNeg (m_sendDir m))"
    by (simp_all add: m_def interiorMotion_def Let_def Motion2Way_new_fields dd)
  show "containsIV (Box (ivNeg ivUnit) ivUnit) (m_sendDir m)" "m_sendDir m \<noteq> ivZero"
    "containsIV (ivDomain (m_numBox dbl)) (ivAdd ivBase (m_sendDir m))"
    using mem by (simp_all add: sd ivBase_def)
  show "dblBox dbl (m_bidxLocal m) = L"
    using box by (simp add: m_def interiorMotion_def Let_def Motion2Way_new_fields dd L_def ivBase_def)
  show "dblBox dbl (m_bidxRemote m) = R"
    using rb by (simp add: R_def sd ivBase_def) (simp add: m_def interiorMotion_def Let_def Motion2Way_new_fields)
  show "m_regionRecv m = intersect (grow L a_numGhost) R"
    "m_regionSend m = (if use_mpi then intersect L (grow R a_numGhost) else emptyBox)"
    unfolding R_def sd L_def ivBase_def rb [symmetric] box [symmetric]
    by (simp_all add: m_def interiorMotion_def Let_def Motion2Way_new_fields same)
  show "0 \<le> globalIndex (m_bidxRemote m)" "globalIndex (m_bidxRemote m) < m_size dbl"
    using ri by (simp_all add: m_def interiorMotion_def Let_def Motion2Way_new_fields)
qed

text \<open>The item the periodic loop appends for a neighbour \<open>s\<close> of the box with index \<open>p\<close>.\<close>

lemma periodic_item:
  fixes a_domain a_maxBoxSize dbl p a_trim a_periodic s use_mpi bpc a_numGhost l
  defines "dit \<equiv> \<lparr> it_disjointBoxLayout = dbl, it_current = p, it_size = localIdxEnd dbl \<rparr>"
  defines "m \<equiv> periodicMotion use_mpi bpc dbl a_numGhost dit (dblBox dbl (BoxIndex p l)) s"
  defines "ivBase \<equiv> ivBaseOf (m_stride dbl) p"
  defines "L \<equiv> latticeBox a_domain a_maxBoxSize ivBase"
  defines "R \<equiv> latticeBox a_domain a_maxBoxSize
                  (wrapPosition (m_numBox dbl) (ivAdd ivBase (m_sendDir m)))"
  defines "shiftBy \<equiv> ivAdd (ivSub (loVect L) (loVect R)) (ivMul (m_sendDir m) (dimensions L))"
  assumes wf: "\<not> isEmpty a_domain" "ivLe ivUnit a_maxBoxSize" "1 \<le> numProc"
      "DisjointBoxLayout_define numProc procID a_domain a_maxBoxSize = Inr dbl"
    and p: "0 \<le> p" "p < m_size dbl"
    and s: "s \<in> set (PeriodicIterator_states (PeriodicIterator_new dit a_trim a_periodic))"
  shows "m_bidxLocal m = BoxIndex p (p - localIdxBegin dbl)"
    and "m_sendDir m = PeriodicIterator_nbrDir s"
    and "containsIV (Box (ivNeg ivUnit) ivUnit) (m_sendDir m)"
    and "\<not> containsIV (ivDomain (m_numBox dbl)) (ivAdd ivBase (m_sendDir m))"
    and "dblBox dbl (m_bidxLocal m) = L"
    and "dblBox dbl (m_bidxRemote m) = R"
    and "shift R shiftBy = latticeBox a_domain a_maxBoxSize (ivAdd ivBase (m_sendDir m))"
    and "m_regionRecv m = intersect (grow L a_numGhost) (shift R shiftBy)"
    and "m_regionSend m
           = (if use_mpi then intersect L (grow (shift R shiftBy) a_numGhost) else emptyBox)"
    and "m_regionSendRemote m = shift (m_regionRecv m) (ivNeg shiftBy)"
    and "m_tagSend m = uniqueTag (m_bidxLocal m) (m_sendDir m)"
    and "m_tagRecv m = uniqueTag (m_bidxRemote m) (ivNeg (m_sendDir m))"
    and "0 \<le> globalIndex (m_bidxRemote m)" and "globalIndex (m_bidxRemote m) < m_size dbl"
proof -
  have dd: "it_disjointBoxLayout dit = dbl" "it_current dit = p"
    "LayoutIterator_deref dit = BoxIndex p (p - localIdxBegin dbl)"
    by (simp_all add: dit_def LayoutIterator_deref_def)
  note pos = layout_position_of_index [OF wf p]
  have box: "dblBox dbl (BoxIndex p l') = latticeBox a_domain a_maxBoxSize (ivBaseOf (m_stride dbl) p)"
    for l'
    using layout_index_of_position(3) [OF wf pos(1), of l'] pos(2) by simp
  note n = PeriodicIterator_wrapped [OF wf dd(1), of a_trim a_periodic, unfolded Let_def dd]
  from n p s have mem: "PeriodicIterator_nbrDir s \<in>
      {off. containsIV (Box (ivNeg ivUnit) ivUnit) off
          \<and> \<not> containsIV (ivDomain (m_numBox dbl)) (ivAdd (ivBaseOf (m_stride dbl) p) off)
          \<and> (\<forall>dir<3. periodicDir a_periodic dir
                 \<or> (0 \<le> ivAt (ivAdd (ivBaseOf (m_stride dbl) p) off) dir
                     \<and> ivAt (ivAdd (ivBaseOf (m_stride dbl) p) off) dir \<le> ivAt (m_numBox dbl) dir - 1))
          \<and> \<not> bit a_trim (nat (norm1 off))}"
    by (metis (no_types, lifting) image_eqI set_map)
  from n p s have rb: "dblBox dbl (LayoutIterator_deref s)
      = latticeBox a_domain a_maxBoxSize
          (wrapPosition (m_numBox dbl)
             (ivAdd (ivBaseOf (m_stride dbl) p) (PeriodicIterator_nbrDir s)))"
    and ri: "0 \<le> globalIndex (LayoutIterator_deref s)"
      "globalIndex (LayoutIterator_deref s) < m_size dbl"
    by blast+
  show "m_bidxLocal m = BoxIndex p (p - localIdxBegin dbl)"
    and sd: "m_sendDir m = PeriodicIterator_nbrDir s"
    and "m_tagSend m = uniqueTag (m_bidxLocal m) (m_sendDir m)"
    and "m_tagRecv m = uniqueTag (m_bidxRemote m) (ivNeg (m_sendDir m))"
    by (simp_all add: m_def periodicMotion_def Let_def Motion2Way_new_fields dd)
  have br: "m_bidxRemote m = LayoutIterator_deref s"
    by (simp add: m_def periodicMotion_def Let_def Motion2Way_new_fields)
  show "containsIV (Box (ivNeg ivUnit) ivUnit) (m_sendDir m)"
    "\<not> containsIV (ivDomain (m_numBox dbl)) (ivAdd ivBase (m_sendDir m))"
    using mem by (simp_all add: sd ivBase_def)
  show lb: "dblBox dbl (m_bidxLocal m) = L"
    using box by (simp add: m_def periodicMotion_def Let_def Motion2Way_new_fields dd L_def ivBase_def)
  show rr: "dblBox dbl (m_bidxRemote m) = R"
    unfolding br rb R_def sd ivBase_def ..
  show sh: "shift R shiftBy = latticeBox a_domain a_maxBoxSize (ivAdd ivBase (m_sendDir m))"
    unfolding shiftBy_def R_def L_def dimensions_latticeBox by (rule shift_latticeBox)
  have lbox: "dblBox dbl (BoxIndex p l) = L" using box by (simp add: L_def ivBase_def)
  have rbox: "dblBox dbl (LayoutIterator_deref s) = R" using rr unfolding br .
  have sb: "ivAdd (ivSub (loVect L) (loVect R)) (ivMul (PeriodicIterator_nbrDir s) (dimensions L))
      = shiftBy"
    by (simp add: shiftBy_def sd)
  show "m_regionRecv m = intersect (grow L a_numGhost) (shift R shiftBy)"
    "m_regionSend m
           = (if use_mpi then intersect L (grow (shift R shiftBy) a_numGhost) else emptyBox)"
    "m_regionSendRemote m = shift (m_regionRecv m) (ivNeg shiftBy)"
    by (simp_all add: m_def periodicMotion_def Let_def Motion2Way_new_fields lbox rbox sb)
  show "0 \<le> globalIndex (m_bidxRemote m)" "globalIndex (m_bidxRemote m) < m_size dbl"
    using ri by (simp_all add: br)
qed




lemma defineExchangeDBL_items:
  assumes "defineExchangeDBL use_mpi sizeofT dbl a_numGhost a_startComp a_numComp
             a_periodic a_trim = Inr cp"
  shows "m_motionItem cp =
      (if a_numGhost > 0 then
         concat (map (boxMotions use_mpi (sizeofT * a_numComp) dbl a_numGhost a_periodic a_trim
             (fold (\<lambda>dir b. if periodicDir a_periodic dir then growDir b (- 1) dir else b)
                   [0, 1, 2] (problemDomain dbl)))
           (LayoutIterator_states (DataIterator_new dbl)))
       else [])"
  using assms by (auto simp: defineExchangeDBL_def Let_def split: if_splits)

text \<open>
  No two items of a plan have the same local box and the same send direction.
\<close>

lemma plan_keys_distinct:
  assumes wf: "\<not> isEmpty a_domain" "ivLe ivUnit a_maxBoxSize" "1 \<le> numProc"
      "DisjointBoxLayout_define numProc procID a_domain a_maxBoxSize = Inr dbl"
    and pr: "0 \<le> procID" "procID < numProc"
    and cp: "defineExchangeDBL use_mpi sizeofT dbl a_numGhost a_startComp a_numComp
           a_periodic a_trim = Inr cp"
  shows "distinct (map (\<lambda>m. (globalIndex (m_bidxLocal m), m_sendDir m)) (m_motionItem cp))"
proof (cases "a_numGhost > 0")
  case False
  then show ?thesis by (simp add: defineExchangeDBL_items [OF cp])
next
  case True
  let ?key = "\<lambda>m. (globalIndex (m_bidxLocal m), m_sendDir m)"
  let ?mk = "\<lambda>g. \<lparr> it_disjointBoxLayout = dbl, it_current = g, it_size = localIdxEnd dbl \<rparr>"
  let ?SI = "\<lambda>p. NeighborIterator_states (NeighborIterator_new (?mk p) a_trim (Box (ivNeg ivUnit) ivUnit))"
  let ?SP = "\<lambda>p. PeriodicIterator_states (PeriodicIterator_new (?mk p) a_trim a_periodic)"
  define B where "B = boxMotions use_mpi (sizeofT * a_numComp) dbl a_numGhost a_periodic a_trim
             (fold (\<lambda>dir b. if periodicDir a_periodic dir then growDir b (- 1) dir else b)
                   [0, 1, 2] (problemDomain dbl))"
  have keys: "\<exists>c. map ?key (B (?mk p)) = map (Pair p) (map NeighborIterator_nbrDir (?SI p))
        @ (if c then map (Pair p) (map PeriodicIterator_nbrDir (?SP p)) else [])" for p
    unfolding B_def boxMotions_def Let_def
    by (rule exI [of _ "\<not> containsBox (fold (\<lambda>dir b. if periodicDir a_periodic dir then growDir b (- 1) dir else b)
                   [0, 1, 2] (problemDomain dbl)) (dblBox dbl (LayoutIterator_deref (?mk p)))"])
       (simp add: interiorMotion_def periodicMotion_def Let_def Motion2Way_new_fields
          LayoutIterator_deref_def comp_def)
  have d1: "distinct (map ?key (B (?mk p)))"
    if p: "p \<in> set [localIdxBegin dbl .. localIdxEnd dbl - 1]" for p
  proof -
    from p have pp: "localIdxBegin dbl \<le> p" "p < localIdxEnd dbl" by simp_all
    note li = local_index_in_layout [OF wf pr pp]
    have dd: "it_disjointBoxLayout (?mk p) = dbl" "it_current (?mk p) = p" by simp_all
    note n = NeighborIterator_stencil [OF wf dd(1), of a_trim, unfolded Let_def dd, OF li(1,2)]
    note q = PeriodicIterator_wrapped [OF wf dd(1), of a_trim a_periodic, unfolded Let_def dd,
        OF li(1,2)]
    from n have nd: "distinct (map NeighborIterator_nbrDir (?SI p))"
      and ns: "\<And>off. off \<in> set (map NeighborIterator_nbrDir (?SI p)) \<Longrightarrow>
           containsIV (ivDomain (m_numBox dbl)) (ivAdd (ivBaseOf (m_stride dbl) p) off)"
      by blast+
    from q have qd: "distinct (map PeriodicIterator_nbrDir (?SP p))"
      and qs: "\<And>off. off \<in> set (map PeriodicIterator_nbrDir (?SP p)) \<Longrightarrow>
           \<not> containsIV (ivDomain (m_numBox dbl)) (ivAdd (ivBaseOf (m_stride dbl) p) off)"
      by blast+
    have disj: "set (map NeighborIterator_nbrDir (?SI p))
        \<inter> set (map PeriodicIterator_nbrDir (?SP p)) = {}"
      using ns qs by blast
    have inj: "inj_on (Pair p) A" for A :: "IntVect set" by (simp add: inj_on_def)
    from keys [of p] obtain c where k: "map ?key (B (?mk p))
        = map (Pair p) (map NeighborIterator_nbrDir (?SI p))
        @ (if c then map (Pair p) (map PeriodicIterator_nbrDir (?SP p)) else [])" ..
    show ?thesis
      unfolding k using nd qd disj
      by (cases c) (auto simp: distinct_map inj_on_def simp del: map_map)
  qed
  have fst_key: "fst k = p" if "k \<in> set (map ?key (B (?mk p)))" for k p
  proof -
    from keys [of p] obtain c where k: "map ?key (B (?mk p))
        = map (Pair p) (map NeighborIterator_nbrDir (?SI p))
        @ (if c then map (Pair p) (map PeriodicIterator_nbrDir (?SP p)) else [])" ..
    from that show ?thesis unfolding k by (cases c) auto
  qed
  have d2: "set (map ?key (B (?mk p))) \<inter> set (map ?key (B (?mk q))) = {}" if "p \<noteq> q" for p q
    using fst_key [of _ p] fst_key [of _ q] that by blast
  have "map ?key (m_motionItem cp)
      = concat (map (\<lambda>p. map ?key (B (?mk p))) [localIdxBegin dbl .. localIdxEnd dbl - 1])"
    unfolding defineExchangeDBL_items [OF cp] DataIterator_states B_def
    using True by (simp add: map_concat comp_def)
  moreover have "distinct (concat (map (\<lambda>p. map ?key (B (?mk p)))
      [localIdxBegin dbl .. localIdxEnd dbl - 1]))"
    by (rule distinct_concat_map) (use d1 d2 in simp_all)
  ultimately show ?thesis by simp
qed

lemma digit_eq:
  fixes k q r q' r' :: int
  assumes "0 \<le> r" "r < k" "0 \<le> r'" "r' < k" "k * q + r = k * q' + r'"
  shows "q = q' \<and> r = r'"
proof -
  have "(k * q + r) div k = q" using assms(1,2) by simp
  moreover have "(k * q' + r') div k = q'" using assms(3,4) by simp
  ultimately have "q = q'" using assms(5) by simp
  with assms(5) show ?thesis by simp
qed






section \<open>BaseFab\<close>

text \<open>
  Modelled from the spec: the class \<^verbatim>\<open>BaseFab<T>\<close> of the missing \<^verbatim>\<open>BaseFab.H\<close>, which
  ``owns a contiguous array of \<open>size(box) \<times> ncomp\<close> elements of \<open>T\<close>'', where ``component
  \<open>c\<close> occupies the contiguous stride \<open>[c\<cdot>size(box), (c+1)\<cdot>size(box))\<close>; in-component layout
  is Fortran-order (fastest index first)''.
\<close>

record 'a BaseFab =
  fab_box :: Box
  fab_ncomp :: int
  fab_data :: "'a list"

text \<open>Modelled from the spec: \<^verbatim>\<open>BaseFab::define(box, ncomp, fill)\<close>.\<close>

definition BaseFab_define :: "Box \<Rightarrow> int \<Rightarrow> 'a \<Rightarrow> 'a BaseFab" where
  "BaseFab_define box ncomp val =
     \<lparr> fab_box = box, fab_ncomp = ncomp, fab_data = replicate (nat (boxSize box * ncomp)) val \<rparr>"

text \<open>
  Modelled from the spec: \<^verbatim>\<open>BaseFab::index(IntVect)\<close>, the ``row-Fortran linear offset within
  one component'', and the position of an element \<open>(cell, component)\<close> in the array.
\<close>

definition fabIndex :: "Box \<Rightarrow> IntVect \<Rightarrow> int" where
  "fabIndex b v =
     (iv0 v - iv0 (loVect b))
       + iv0 (dimensions b) * ((iv1 v - iv1 (loVect b))
           + iv1 (dimensions b) * (iv2 v - iv2 (loVect b)))"

definition fabOffset :: "Box \<Rightarrow> IntVect \<Rightarrow> int \<Rightarrow> nat" where
  "fabOffset b v c = nat (fabIndex b v + c * boxSize b)"

text \<open>
  The array positions of a region for a range of components, ``in component-major order: each
  component's region contents laid out contiguously in Fortran cell order''.
\<close>

definition regionOffsets :: "Box \<Rightarrow> Box \<Rightarrow> int list \<Rightarrow> nat list" where
  "regionOffsets b region comps =
     concat (map (\<lambda>c. map (\<lambda>v. fabOffset b v c) (fortranCells region)) comps)"

text \<open>
  Modelled from the spec: ``\<open>regionSrc \<subseteq> src.box\<close> and \<open>regionDst \<subseteq> dst.box\<close>, else fail with
  \<open>OutOfBounds\<close>''.  A component outside the fab is an access outside the array as well and
  is reported in the same way.
\<close>

definition inBounds :: "'a BaseFab \<Rightarrow> Box \<Rightarrow> int \<Rightarrow> int \<Rightarrow> bool" where
  "inBounds f region startComp endComp =
     ((isEmpty region \<or> containsBox (fab_box f) region)
      \<and> 0 \<le> startComp \<and> endComp \<le> fab_ncomp f)"

text \<open>Writing a sequence of values to a sequence of array positions.\<close>

definition scatter :: "nat list \<Rightarrow> 'a list \<Rightarrow> 'a list \<Rightarrow> 'a list" where
  "scatter offsets vals d = fold (\<lambda>(i, x) d. d[i := x]) (zip offsets vals) d"

text \<open>
  Modelled from the spec: the region copy
  \<^verbatim>\<open>dst.copy(regionDst, compDstStart, src, regionSrc, compStart, nComp, flags)\<close>: ``for each
  selected component \<open>k \<in> [0, nComp)\<close> whose bit \<open>1<<k\<close> is set in \<open>flags\<close>, copy the
  \<open>size(regionDst)\<close> cells; \<open>regionSrc\<close> and \<open>regionDst\<close> must have equal size.  The per-cell
  correspondence is the positional one after aligning the two regions' lower corners.''
\<close>

definition BaseFab_copy ::
  "'a BaseFab \<Rightarrow> Box \<Rightarrow> int \<Rightarrow> 'a BaseFab \<Rightarrow> Box \<Rightarrow> int \<Rightarrow> int \<Rightarrow> 32 word \<Rightarrow> error + 'a BaseFab" where
  "BaseFab_copy dst regionDst compDstStart src regionSrc compStart nComp flags =
     (if \<not> (inBounds src regionSrc compStart (compStart + nComp)
             \<and> inBounds dst regionDst compDstStart (compDstStart + nComp))
      then Inl OutOfBounds
      else if boxSize regionSrc \<noteq> boxSize regionDst then Inl AssertFailed
      else
        let comps = filter (\<lambda>k. bit flags (nat k)) [0 .. nComp - 1];
            vals = map (\<lambda>i. fab_data src ! i)
                     (regionOffsets (fab_box src) regionSrc (map (\<lambda>k. compStart + k) comps))
        in Inr (dst \<lparr> fab_data :=
                  scatter (regionOffsets (fab_box dst) regionDst (map (\<lambda>k. compDstStart + k) comps))
                    vals (fab_data dst) \<rparr>))"

text \<open>
  Modelled from the spec: \<^verbatim>\<open>linearOut(buf, region, startComp, endComp)\<close> and its inverse
  \<^verbatim>\<open>linearIn\<close>.  A buffer is the list of its elements, \<open>None\<close> is the null pointer; reading
  elements through the null pointer or past the end of the buffer is an error.
\<close>

definition BaseFab_linearOut :: "'a BaseFab \<Rightarrow> Box \<Rightarrow> int \<Rightarrow> int \<Rightarrow> error + 'a list" where
  "BaseFab_linearOut f region startComp endComp =
     (if \<not> inBounds f region startComp endComp then Inl OutOfBounds
      else Inr (map (\<lambda>i. fab_data f ! i)
                  (regionOffsets (fab_box f) region [startComp .. endComp - 1])))"

definition BaseFab_linearIn ::
  "'a BaseFab \<Rightarrow> 'a list option \<Rightarrow> Box \<Rightarrow> int \<Rightarrow> int \<Rightarrow> error + 'a BaseFab" where
  "BaseFab_linearIn f buf region startComp endComp =
     (if \<not> inBounds f region startComp endComp then Inl OutOfBounds
      else
        let offsets = regionOffsets (fab_box f) region [startComp .. endComp - 1]
        in if offsets = [] then Inr f
           else case buf of
                  None \<Rightarrow> Inl NullBuffer
                | Some xs \<Rightarrow>
                    if length xs < length offsets then Inl OutOfBounds
                    else Inr (f \<lparr> fab_data := scatter offsets xs (fab_data f) \<rparr>))"

section \<open>LevelData.H\<close>

record 'a LevelData =
  ld_disjointBoxLayout :: DisjointBoxLayout
  ld_data :: "'a BaseFab list"
  ld_ncomp :: int
  ld_nghost :: int

text \<open>
  The constructor: one fab for each position of the DataIterator, on the box grown by the
  ghost width.  The fabs are defined without a fill value; \<open>fill\<close> stands for what the
  storage holds.
\<close>

definition LevelData_new :: "DisjointBoxLayout \<Rightarrow> int \<Rightarrow> int \<Rightarrow> 'a \<Rightarrow> 'a LevelData" where
  "LevelData_new a_dbl a_ncomp a_nghost fill =
     \<lparr> ld_disjointBoxLayout = a_dbl,
       ld_data = map (\<lambda>bidx. BaseFab_define (grow (dblBox a_dbl bidx) a_nghost) a_ncomp fill)
                     (LayoutIterator_indices (DataIterator_new a_dbl)),
       ld_ncomp = a_ncomp,
       ld_nghost = a_nghost \<rparr>"

text \<open>
  \<^verbatim>\<open>operator[](const BoxIndex&)\<close>: the position in \<^verbatim>\<open>m_data\<close> after the two assertions.
  The vector access itself is unchecked; an index outside the vector is reported as
  \<open>OutOfBounds\<close>.
\<close>

definition LevelData_index :: "'a LevelData \<Rightarrow> BoxIndex \<Rightarrow> error + nat" where
  "LevelData_index ld a_bidx =
     (if \<not> localIndex a_bidx < localSize (ld_disjointBoxLayout ld) then Inl AssertFailed
      else if \<not> (globalIndex a_bidx \<ge> localIdxBegin (ld_disjointBoxLayout ld)
                  \<and> globalIndex a_bidx < localIdxEnd (ld_disjointBoxLayout ld))
      then Inl AssertFailed
      else if localIndex a_bidx < 0 \<or> int (length (ld_data ld)) \<le> localIndex a_bidx
      then Inl OutOfBounds
      else Inr (nat (localIndex a_bidx)))"

text \<open>
  The contents of the buffers of a Copier and the state of the transport during an exchange:
  for each motion item its send and its receive buffer (\<open>None\<close> for the null pointer of a
  local item), for each posted request the motion item that posted it (the send request of
  an item in an even slot, its receive request in the next, odd slot), and the messages
  handed to \<^verbatim>\<open>MPI_Isend\<close> as (destination, tag, payload).
\<close>

record 'a Messaging =
  mp_sendBuffer :: "'a list option list"
  mp_recvBuffer :: "'a list option list"
  mp_requests :: "nat list"
  mp_sent :: "(int \<times> int \<times> 'a list) list"

text \<open>
  The buffers of a freshly defined Copier; \<open>stale\<close> is what the allocated memory holds.
\<close>

definition Messaging_new :: "Copier \<Rightarrow> 'a list \<Rightarrow> 'a Messaging" where
  "Messaging_new cp stale =
     \<lparr> mp_sendBuffer = map (\<lambda>m. if m_sendBuffer m = None then None else Some stale)
                            (m_motionItem cp),
       mp_recvBuffer = map (\<lambda>m. if m_recvBuffer m = None then None else Some stale)
                            (m_motionItem cp),
       mp_requests = [],
       mp_sent = [] \<rparr>"

text \<open>
  The body of the first loop of \<^verbatim>\<open>exchange\<close> and \<^verbatim>\<open>exchangeBegin\<close> for the motion item
  \<open>midx\<close>: a local copy, or packing the send buffer and posting the two messages.  The
  accessor \<^verbatim>\<open>regionSend()\<close> returns \<^verbatim>\<open>m_regionSendRemote\<close>, \<^verbatim>\<open>bidxRecv()\<close> the local and
  \<^verbatim>\<open>bidxSend()\<close> the remote index.  Without \<^verbatim>\<open>USE_MPI\<close> every item takes the first branch.
\<close>

definition exchangeItem ::
  "bool \<Rightarrow> Copier \<Rightarrow> nat \<Rightarrow> 'a LevelData \<times> 'a Messaging \<Rightarrow> error + 'a LevelData \<times> 'a Messaging" where
  "exchangeItem use_mpi a_copier midx st =
     (let ld = fst st; mp = snd st;
          startComp = m_startComp a_copier;
          numComp = m_endComp a_copier - m_startComp a_copier;
          endComp = m_endComp a_copier;
          motion = m_motionItem a_copier ! midx
      in if \<not> use_mpi \<or> isLocal motion then
           (if \<not> isLocal motion then Inl AssertFailed
            else
              let i = localIndex (m_bidxLocal motion); j = localIndex (m_bidxRemote motion)
              in if i < 0 \<or> int (length (ld_data ld)) \<le> i
                    \<or> j < 0 \<or> int (length (ld_data ld)) \<le> j
                 then Inl OutOfBounds
                 else case BaseFab_copy (ld_data ld ! nat i) (m_regionRecv motion) startComp
                             (ld_data ld ! nat j) (m_regionSendRemote motion) startComp numComp
                             (m_compRecvFlags motion) of
                        Inl e \<Rightarrow> Inl e
                      | Inr fab \<Rightarrow> Inr (ld \<lparr> ld_data := (ld_data ld)[nat i := fab] \<rparr>, mp))
         else
           (case LevelData_index ld (m_bidxLocal motion) of
              Inl e \<Rightarrow> Inl e
            | Inr i \<Rightarrow>
               (case mp_sendBuffer mp ! midx of
                  None \<Rightarrow> Inl NullBuffer
                | Some old \<Rightarrow>
                   (case BaseFab_linearOut (ld_data ld ! i) (m_regionSend motion) startComp endComp of
                      Inl e \<Rightarrow> Inl e
                    | Inr payload \<Rightarrow>
                        if mp_recvBuffer mp ! midx = None then Inl AssertFailed
                        else Inr (ld, mp \<lparr> mp_sendBuffer := (mp_sendBuffer mp)[midx := Some payload],
                                           mp_requests := mp_requests mp @ [midx, midx],
                                           mp_sent := mp_sent mp
                                              @ [(m_remoteProcID motion, m_tagSend motion, payload)] \<rparr>)))))"

text \<open>Running a loop body over a list of indices, stopping at the first failure.\<close>

definition foldE :: "('i \<Rightarrow> 's \<Rightarrow> error + 's) \<Rightarrow> 'i list \<Rightarrow> 's \<Rightarrow> error + 's" where
  "foldE f xs s = fold (\<lambda>x r. case r of Inl e \<Rightarrow> Inl e | Inr s \<Rightarrow> f x s) xs (Inr s)"

text \<open>
  The completion of request \<open>ridx\<close>, reported by \<^verbatim>\<open>MPI_Waitany\<close> or \<^verbatim>\<open>MPI_Waitall\<close>: if it
  is a receive, the message for the motion item that posted it is now in that item's
  receive buffer.  \<open>incoming\<close> lists, by motion item, the payload the remote process sends.
\<close>

definition complete :: "'a list list \<Rightarrow> nat \<Rightarrow> 'a Messaging \<Rightarrow> 'a Messaging" where
  "complete incoming ridx mp =
     (if odd ridx \<and> ridx < length (mp_requests mp)
      then mp \<lparr> mp_recvBuffer :=
                  (mp_recvBuffer mp)[mp_requests mp ! ridx := Some (incoming ! (mp_requests mp ! ridx))] \<rparr>
      else mp)"

text \<open>\<^verbatim>\<open>Copier::operator[]\<close> with its assertion, and \<^verbatim>\<open>Copier::motionItemIndex\<close>.\<close>

definition Copier_at :: "Copier \<Rightarrow> int \<Rightarrow> error + Motion2Way" where
  "Copier_at cp a_idx =
     (if \<not> (a_idx \<ge> 0 \<and> a_idx < int (length (m_motionItem cp))) then Inl AssertFailed
      else Inr (m_motionItem cp ! nat a_idx))"

definition motionItemIndex :: "Copier \<Rightarrow> int \<Rightarrow> error + int" where
  "motionItemIndex cp a_idxReq =
     (if a_idxReq sdiv 2 < 0 \<or> int (length (m_midxForReq cp)) \<le> a_idxReq sdiv 2
      then Inl OutOfBounds
      else Inr (int (m_midxForReq cp ! nat (a_idxReq sdiv 2))))"

text \<open>Unpacking the receive buffer of the motion item with index \<open>midx\<close> of the plan.\<close>

definition unpack ::
  "Copier \<Rightarrow> Motion2Way \<Rightarrow> nat \<Rightarrow> 'a LevelData \<times> 'a Messaging \<Rightarrow> error + 'a LevelData \<times> 'a Messaging" where
  "unpack a_copier motion midx st =
     (let ld = fst st; mp = snd st
      in case LevelData_index ld (m_bidxLocal motion) of
           Inl e \<Rightarrow> Inl e
         | Inr i \<Rightarrow>
            (case BaseFab_linearIn (ld_data ld ! i) (mp_recvBuffer mp ! midx) (m_regionRecv motion)
                    (m_startComp a_copier) (m_endComp a_copier) of
               Inl e \<Rightarrow> Inl e
             | Inr fab \<Rightarrow> Inr (ld \<lparr> ld_data := (ld_data ld)[i := fab] \<rparr>, mp)))"

text \<open>
  One iteration of the \<^verbatim>\<open>MPI_Waitany\<close> loop of \<^verbatim>\<open>exchange\<close>, for the request index \<open>ridx\<close>
  the call returns.
\<close>

definition exchangeWaitany ::
  "Copier \<Rightarrow> 'a list list \<Rightarrow> nat \<Rightarrow> 'a LevelData \<times> 'a Messaging
     \<Rightarrow> error + 'a LevelData \<times> 'a Messaging" where
  "exchangeWaitany a_copier incoming ridx st =
     (let st = (fst st, complete incoming ridx (snd st))
      in if (word_of_nat ridx :: 32 word) AND 1 \<noteq> 0 then
           (case motionItemIndex a_copier (int ridx) of
              Inl e \<Rightarrow> Inl e
            | Inr midx \<Rightarrow>
               (case Copier_at a_copier midx of
                  Inl e \<Rightarrow> Inl e
                | Inr motion \<Rightarrow>
                    if \<not> isLocal motion then unpack a_copier motion (nat midx) st else Inr st))
         else Inr st)"

text \<open>The same iteration in \<^verbatim>\<open>exchangeEnd\<close>.\<close>

definition exchangeEndWaitany ::
  "Copier \<Rightarrow> 'a list list \<Rightarrow> nat \<Rightarrow> 'a LevelData \<times> 'a Messaging
     \<Rightarrow> error + 'a LevelData \<times> 'a Messaging" where
  "exchangeEndWaitany a_copier incoming ridx st =
     (let st = (fst st, complete incoming ridx (snd st))
      in if (word_of_nat ridx :: 32 word) AND 1 \<noteq> 0 then
           (case Copier_at a_copier (int ridx sdiv 2) of
              Inl e \<Rightarrow> Inl e
            | Inr recvMotion \<Rightarrow> unpack a_copier recvMotion (nat (int ridx sdiv 2)) st)
         else Inr st)"

text \<open>
  The \<^verbatim>\<open>MPI_Waitall\<close> variant (\<^verbatim>\<open>USE_MPIWAITALL\<close>), the same in \<^verbatim>\<open>exchange\<close> and
  \<^verbatim>\<open>exchangeEnd\<close>: all requests complete, then every non-local item is unpacked.
\<close>

definition exchangeWaitall ::
  "Copier \<Rightarrow> 'a list list \<Rightarrow> 'a LevelData \<times> 'a Messaging \<Rightarrow> error + 'a LevelData \<times> 'a Messaging" where
  "exchangeWaitall a_copier incoming st =
     (let st = (fst st, fold (complete incoming) [0 ..< nat (m_numReq a_copier)] (snd st))
      in foldE (\<lambda>midx st.
                  case Copier_at a_copier (int midx) of
                    Inl e \<Rightarrow> Inl e
                  | Inr motion \<Rightarrow>
                      if \<not> isLocal motion then unpack a_copier motion midx st else Inr st)
           [0 ..< length (m_motionItem a_copier)] st)"

text \<open>
  The three member functions; the first loop, which \<^verbatim>\<open>exchange\<close> and \<^verbatim>\<open>exchangeBegin\<close>
  share, fills the request slots from slot 0 (\<^verbatim>\<open>idxReq = 0\<close>).  \<open>use_mpi\<close> and \<open>use_waitall\<close> are the build flags
  \<^verbatim>\<open>USE_MPI\<close> and \<^verbatim>\<open>USE_MPIWAITALL\<close>, \<open>numProc\<close> is \<^verbatim>\<open>DisjointBoxLayout::numProc()\<close>, and
  \<open>order\<close> lists the request indices in the order in which the successive calls of
  \<^verbatim>\<open>MPI_Waitany\<close> return them.
\<close>

definition exchangePost ::
  "bool \<Rightarrow> Copier \<Rightarrow> 'a LevelData \<times> 'a Messaging \<Rightarrow> error + 'a LevelData \<times> 'a Messaging" where
  "exchangePost use_mpi a_copier st =
     foldE (exchangeItem use_mpi a_copier) [0 ..< length (m_motionItem a_copier)]
       (fst st, (snd st) \<lparr> mp_requests := [] \<rparr>)"

definition exchangeBegin ::
  "bool \<Rightarrow> Copier \<Rightarrow> 'a LevelData \<times> 'a Messaging \<Rightarrow> error + 'a LevelData \<times> 'a Messaging" where
  "exchangeBegin use_mpi a_copier st =
     (if ld_nghost (fst st) > 0 then exchangePost use_mpi a_copier st else Inr st)"

definition exchange ::
  "bool \<Rightarrow> bool \<Rightarrow> int \<Rightarrow> 'a list list \<Rightarrow> nat list \<Rightarrow> Copier \<Rightarrow> 'a LevelData \<times> 'a Messaging
     \<Rightarrow> error + 'a LevelData \<times> 'a Messaging" where
  "exchange use_mpi use_waitall numProc incoming order a_copier st =
     (if ld_nghost (fst st) > 0 then
        (case exchangePost use_mpi a_copier st of
           Inl e \<Rightarrow> Inl e
         | Inr st \<Rightarrow>
             if use_mpi \<and> numProc > 1 then
               (if \<not> use_waitall
                then foldE (exchangeWaitany a_copier incoming)
                       (take (nat (m_numReq a_copier)) order) st
                else exchangeWaitall a_copier incoming st)
             else Inr st)
      else Inr st)"

definition exchangeEnd ::
  "bool \<Rightarrow> bool \<Rightarrow> int \<Rightarrow> 'a list list \<Rightarrow> nat list \<Rightarrow> Copier \<Rightarrow> 'a LevelData \<times> 'a Messaging
     \<Rightarrow> error + 'a LevelData \<times> 'a Messaging" where
  "exchangeEnd use_mpi use_waitall numProc incoming order a_copier st =
     (if use_mpi \<and> numProc > 1 then
        (if \<not> use_waitall
         then foldE (exchangeEndWaitany a_copier incoming)
                (take (nat (m_numReq a_copier)) order) st
         else exchangeWaitall a_copier incoming st)
      else Inr st)"

text \<open>\<^verbatim>\<open>exchangeBegin\<close> followed by \<^verbatim>\<open>exchangeEnd\<close>.\<close>

definition exchangeSplit ::
  "bool \<Rightarrow> bool \<Rightarrow> int \<Rightarrow> 'a list list \<Rightarrow> nat list \<Rightarrow> Copier \<Rightarrow> 'a LevelData \<times> 'a Messaging
     \<Rightarrow> error + 'a LevelData \<times> 'a Messaging" where
  "exchangeSplit use_mpi use_waitall numProc incoming order a_copier st =
     (case exchangeBegin use_mpi a_copier st of
        Inl e \<Rightarrow> Inl e
      | Inr st \<Rightarrow> exchangeEnd use_mpi use_waitall numProc incoming order a_copier st)"

text \<open>
  C5 fails on the code.  Two processes, a domain of 4x1x1 cells in four boxes of one cell, so
  that process 0 owns the boxes 0 and 1; one component, ghost width 1, no periodic direction,
  no trimming, built with \<^verbatim>\<open>USE_MPI\<close> and without \<^verbatim>\<open>USE_MPIWAITALL\<close>.  The plan of process 0
  holds the local items for (box 0, +x) and (box 1, -x) and then the item for (box 1, +x),
  whose neighbour lives on process 1; process 1 sends the value 99.  \<^verbatim>\<open>exchange\<close> returns
  with 99 in the +x ghost cell of box 1.  \<^verbatim>\<open>exchangeBegin\<close> followed by
  \<^verbatim>\<open>exchangeEnd\<close> does not: for the completed receive request 1, \<^verbatim>\<open>exchangeEnd\<close> takes the
  motion item \<^verbatim>\<open>a_copier[ridx/2]\<close>, item 0, a local item whose receive buffer is the null
  pointer, where \<^verbatim>\<open>exchange\<close> takes item \<^verbatim>\<open>motionItemIndex(ridx)\<close>, item 2.
\<close>

theorem exchangeEnd_unpacks_wrong_item:
  "case DisjointBoxLayout_define 2 0 (Box (IntVect 0 0 0) (IntVect 3 0 0)) (IntVect 1 1 1) of
     Inl e \<Rightarrow> False
   | Inr dbl \<Rightarrow>
      (case defineExchangeDBL True 4 dbl 1 0 1 0 0 of
         Inl e \<Rightarrow> False
       | Inr cp \<Rightarrow>
           map isLocal (m_motionItem cp) = [True, True, False]
         \<and> m_midxForReq cp = [2]
         \<and> (case exchange True False 2 [[], [], [99]] [0, 1] cp
                    (LevelData_new dbl 1 1 (0::int), Messaging_new cp [0]) of
              Inl e \<Rightarrow> False
            | Inr st \<Rightarrow>
                fab_data (ld_data (fst st) ! 1) ! fabOffset (fab_box (ld_data (fst st) ! 1)) (IntVect 2 0 0) 0
                  = 99)
         \<and> exchangeSplit True False 2 [[], [], [99]] [0, 1] cp
                    (LevelData_new dbl 1 1 (0::int), Messaging_new cp [0])
             = Inl NullBuffer
         \<and> exchangeSplit True False 2 [[], [], [99]] [1, 0] cp
                    (LevelData_new dbl 1 1 (0::int), Messaging_new cp [0])
             = Inl NullBuffer)"
  by code_simp

section \<open>Independence of the order of completion\<close>

subsection \<open>Writes to disjoint positions commute\<close>

lemma scatter_Nil [simp]: "scatter [] vals d = d" "scatter offsets [] d = d"
  by (simp_all add: scatter_def)

lemma scatter_Cons [simp]: "scatter (i # offsets) (x # vals) d = scatter offsets vals (d[i := x])"
  by (simp add: scatter_def)

lemma scatter_update_swap:
  "i \<notin> set offsets \<Longrightarrow> (scatter offsets vals d)[i := x] = scatter offsets vals (d[i := x])"
proof (induction offsets arbitrary: vals d)
  case Nil
  then show ?case by simp
next
  case (Cons j offsets)
  show ?case
  proof (cases vals)
    case Nil
    then show ?thesis by simp
  next
    case (Cons y ys)
    from Cons.prems have ne: "i \<noteq> j" and ni: "i \<notin> set offsets" by simp_all
    show ?thesis
      unfolding Cons scatter_Cons Cons.IH [OF ni]
      by (simp add: list_update_swap [OF ne])
  qed
qed

lemma scatter_commute:
  "set o1 \<inter> set o2 = {} \<Longrightarrow>
   scatter o1 v1 (scatter o2 v2 d) = scatter o2 v2 (scatter o1 v1 d)"
proof (induction o1 arbitrary: v1 d)
  case Nil
  then show ?case by simp
next
  case (Cons i o1)
  show ?case
  proof (cases v1)
    case Nil
    then show ?thesis by simp
  next
    case (Cons x xs)
    from Cons.prems have ni: "i \<notin> set o2" and dj: "set o1 \<inter> set o2 = {}" by auto
    show ?thesis
      unfolding Cons scatter_Cons scatter_update_swap [OF ni] Cons.IH [OF dj] ..
  qed
qed

text \<open>The position of an element in the array determines its cell and its component.\<close>

lemma fabIndex_bounds:
  assumes "v \<in> cells b"
  shows "0 \<le> fabIndex b v" and "fabIndex b v < boxSize b"
proof -
  obtain l0 l1 l2 h0 h1 h2 where b: "b = Box (IntVect l0 l1 l2) (IntVect h0 h1 h2)"
    by (cases b; cases "loVect b"; cases "hiVect b") simp
  obtain x y z where v: "v = IntVect x y z" by (cases v)
  from assms have r: "0 \<le> x - l0" "x - l0 \<le> (h0 - l0 + 1) - 1" "0 \<le> y - l1"
      "y - l1 \<le> (h1 - l1 + 1) - 1" "0 \<le> z - l2" "z - l2 \<le> (h2 - l2 + 1) - 1"
    by (simp_all add: b v cells_def containsIV_def ivLe_def)
  have e: "fabIndex b v = (x - l0) + (h0 - l0 + 1) * (y - l1) + (h0 - l0 + 1) * (h1 - l1 + 1) * (z - l2)"
    by (simp add: fabIndex_def b v dimensions_def ivAdd_def ivSub_def ivUnit_def algebra_simps)
  have s: "boxSize b = (h0 - l0 + 1) * (h1 - l1 + 1) * (h2 - l2 + 1)"
    by (simp add: boxSize_def product_def b dimensions_def ivAdd_def ivSub_def ivUnit_def)
  show "0 \<le> fabIndex b v" "fabIndex b v < boxSize b"
    unfolding e s using linear_bounds [OF r] by simp_all
qed

lemma fabIndex_inj:
  assumes "v \<in> cells b" and "w \<in> cells b" and "fabIndex b v = fabIndex b w"
  shows "v = w"
proof -
  obtain l0 l1 l2 h0 h1 h2 where b: "b = Box (IntVect l0 l1 l2) (IntVect h0 h1 h2)"
    by (cases b; cases "loVect b"; cases "hiVect b") simp
  obtain x y z where v: "v = IntVect x y z" by (cases v)
  obtain x' y' z' where w: "w = IntVect x' y' z'" by (cases w)
  from assms(1) have rv: "0 \<le> x - l0" "x - l0 < h0 - l0 + 1" "0 \<le> y - l1" "y - l1 < h1 - l1 + 1"
    by (simp_all add: b v cells_def containsIV_def ivLe_def)
  from assms(2) have rw: "0 \<le> x' - l0" "x' - l0 < h0 - l0 + 1" "0 \<le> y' - l1" "y' - l1 < h1 - l1 + 1"
    by (simp_all add: b w cells_def containsIV_def ivLe_def)
  from assms(3) have e: "(h0 - l0 + 1) * ((y - l1) + (h1 - l1 + 1) * (z - l2)) + (x - l0)
      = (h0 - l0 + 1) * ((y' - l1) + (h1 - l1 + 1) * (z' - l2)) + (x' - l0)"
    by (simp add: fabIndex_def b v w dimensions_def ivAdd_def ivSub_def ivUnit_def)
  from digit_eq [OF rv(1,2) rw(1,2) e]
  have e1: "(h1 - l1 + 1) * (z - l2) + (y - l1) = (h1 - l1 + 1) * (z' - l2) + (y' - l1)"
    and x: "x - l0 = x' - l0" by simp_all
  from digit_eq [OF rv(3,4) rw(3,4) e1] have "z - l2 = z' - l2" "y - l1 = y' - l1" by simp_all
  with x show ?thesis by (simp add: v w)
qed

lemma fabOffset_inj:
  assumes "v \<in> cells b" and "w \<in> cells b" and "0 \<le> c" and "0 \<le> c'"
    and "fabOffset b v c = fabOffset b w c'"
  shows "v = w \<and> c = c'"
proof -
  note bv = fabIndex_bounds [OF assms(1)] and bw = fabIndex_bounds [OF assms(2)]
  have sp: "0 \<le> boxSize b" using bv by linarith
  have "0 \<le> fabIndex b v + c * boxSize b" "0 \<le> fabIndex b w + c' * boxSize b"
    using bv(1) bw(1) sp assms(3,4) by simp_all
  with assms(5) have "boxSize b * c + fabIndex b v = boxSize b * c' + fabIndex b w"
    by (simp add: fabOffset_def algebra_simps)
  from digit_eq [OF bv bw this] have "c = c'" "fabIndex b v = fabIndex b w" by simp_all
  with fabIndex_inj [OF assms(1,2)] show ?thesis by simp
qed

lemma set_regionOffsets:
  "set (regionOffsets b region comps) = {fabOffset b v c | v c. v \<in> cells region \<and> c \<in> set comps}"
  by (auto simp: regionOffsets_def set_fortranCells)

lemma regionOffsets_disjoint:
  assumes "cells r1 \<subseteq> cells b" and "cells r2 \<subseteq> cells b" and "cells r1 \<inter> cells r2 = {}"
    and "\<forall>c \<in> set comps. 0 \<le> c"
  shows "set (regionOffsets b r1 comps) \<inter> set (regionOffsets b r2 comps) = {}"
proof -
  have False if "n \<in> set (regionOffsets b r1 comps)" "n \<in> set (regionOffsets b r2 comps)" for n
  proof -
    from that(1) obtain v c where v: "v \<in> cells r1" "c \<in> set comps" "n = fabOffset b v c"
      unfolding set_regionOffsets by blast
    from that(2) obtain w c' where w: "w \<in> cells r2" "c' \<in> set comps" "n = fabOffset b w c'"
      unfolding set_regionOffsets by blast
    have "v = w \<and> c = c'"
      using fabOffset_inj [of v b w c c'] v w assms by auto
    with v(1) w(1) assms(3) show False by blast
  qed
  then show ?thesis by blast
qed

lemma length_regionOffsets:
  "length (regionOffsets b region comps) = length comps * length (fortranCells region)"
  unfolding regionOffsets_def by (rule length_concat_const) simp

text \<open>Updating the data of fab \<open>i\<close> of a level.\<close>

definition fabWrite :: "nat \<Rightarrow> nat list \<Rightarrow> 'a list \<Rightarrow> 'a BaseFab list \<Rightarrow> 'a BaseFab list" where
  "fabWrite i offsets vals fabs =
     fabs[i := (fabs ! i) \<lparr> fab_data := scatter offsets vals (fab_data (fabs ! i)) \<rparr>]"

lemma fabWrite_commute:
  assumes "i \<noteq> j \<or> set o1 \<inter> set o2 = {}"
  shows "fabWrite i o1 v1 (fabWrite j o2 v2 fabs) = fabWrite j o2 v2 (fabWrite i o1 v1 fabs)"
proof (cases "i = j")
  case False
  then show ?thesis by (simp add: fabWrite_def list_update_swap)
next
  case True
  with assms have dj: "set o1 \<inter> set o2 = {}" by simp
  show ?thesis
  proof (cases "i < length fabs")
    case True
    then show ?thesis
      unfolding \<open>i = j\<close> [symmetric] fabWrite_def
      by (simp add: scatter_commute [OF dj])
  next
    case False
    then have "length fabs \<le> i" by simp
    then show ?thesis unfolding \<open>i = j\<close> [symmetric] fabWrite_def by (simp add: list_update_beyond)
  qed
qed

lemma fabWrite_shape:
  "map (\<lambda>f. (fab_box f, fab_ncomp f)) (fabWrite i offsets vals fabs)
     = map (\<lambda>f. (fab_box f, fab_ncomp f)) fabs"
proof (cases "i < length fabs")
  case True
  then show ?thesis by (simp add: fabWrite_def map_update list_update_same_conv)
next
  case False
  then have "length fabs \<le> i" by simp
  then show ?thesis by (simp add: fabWrite_def list_update_beyond)
qed

subsection \<open>The receive regions of a plan\<close>

lemma plan_item_recv:
  fixes m dbl a_domain a_maxBoxSize
  defines "ivBase \<equiv> ivBaseOf (m_stride dbl) (globalIndex (m_bidxLocal m))"
  assumes wf: "\<not> isEmpty a_domain" "ivLe ivUnit a_maxBoxSize" "1 \<le> numProc"
      "DisjointBoxLayout_define numProc procID a_domain a_maxBoxSize = Inr dbl"
    and pr: "0 \<le> procID" "procID < numProc"
    and cp: "defineExchangeDBL use_mpi sizeofT dbl a_numGhost a_startComp a_numComp
           a_periodic a_trim = Inr cp"
    and m: "m \<in> set (m_motionItem cp)"
  shows "localIdxBegin dbl \<le> globalIndex (m_bidxLocal m)"
    and "globalIndex (m_bidxLocal m) < localIdxEnd dbl"
    and "localIndex (m_bidxLocal m) = globalIndex (m_bidxLocal m) - localIdxBegin dbl"
    and "dblBox dbl (m_bidxLocal m) = latticeBox a_domain a_maxBoxSize ivBase"
    and "m_regionRecv m = intersect (grow (latticeBox a_domain a_maxBoxSize ivBase) a_numGhost)
           (latticeBox a_domain a_maxBoxSize (ivAdd ivBase (m_sendDir m)))"
    and "m_localProcID m = procID"
    and "m_remoteProcID m = dblProc dbl (m_bidxRemote m)"
proof -
  from cp m have "localIdxBegin dbl \<le> globalIndex (m_bidxLocal m)
    \<and> globalIndex (m_bidxLocal m) < localIdxEnd dbl
    \<and> localIndex (m_bidxLocal m) = globalIndex (m_bidxLocal m) - localIdxBegin dbl
    \<and> dblBox dbl (m_bidxLocal m) = latticeBox a_domain a_maxBoxSize ivBase
    \<and> m_regionRecv m = intersect (grow (latticeBox a_domain a_maxBoxSize ivBase) a_numGhost)
           (latticeBox a_domain a_maxBoxSize (ivAdd ivBase (m_sendDir m)))
    \<and> m_localProcID m = procID
    \<and> m_remoteProcID m = dblProc dbl (m_bidxRemote m)"
  proof (cases rule: plan_item_cases)
    case (interior p s)
    note li = local_index_in_layout [OF wf pr interior(1,2)]
    note f = interior_item [OF wf li(1,2) interior(3), of use_mpi "sizeofT * a_numComp"
        a_numGhost "p - localIdxBegin dbl", folded interior(4)]
    have gi: "globalIndex (m_bidxLocal m) = p" "localIndex (m_bidxLocal m) = p - localIdxBegin dbl"
      by (simp_all add: f(1))
    have pid: "m_localProcID m = procID" "m_remoteProcID m = dblProc dbl (m_bidxRemote m)"
      unfolding interior(4)
      by (simp_all add: interiorMotion_def Let_def Motion2Way_new_fields LayoutIterator_deref_def
          li(3))
    show ?thesis
      unfolding ivBase_def gi using interior(1,2) f(6) f(8) pid
      by (simp add: f(6) [symmetric] f(7) [symmetric])
  next
    case (periodic p s)
    note li = local_index_in_layout [OF wf pr periodic(1,2)]
    note f = periodic_item [OF wf li(1,2) periodic(3), of use_mpi "sizeofT * a_numComp"
        a_numGhost "p - localIdxBegin dbl", folded periodic(4)]
    have gi: "globalIndex (m_bidxLocal m) = p" "localIndex (m_bidxLocal m) = p - localIdxBegin dbl"
      by (simp_all add: f(1))
    have pid: "m_localProcID m = procID" "m_remoteProcID m = dblProc dbl (m_bidxRemote m)"
      unfolding periodic(4)
      by (simp_all add: periodicMotion_def Let_def Motion2Way_new_fields LayoutIterator_deref_def
          li(3))
    show ?thesis
      unfolding ivBase_def gi using periodic(1,2) f(5) f(8) pid
      by (simp add: f(5) [symmetric] f(7) [symmetric])
  qed
  then show "localIdxBegin dbl \<le> globalIndex (m_bidxLocal m)"
    and "globalIndex (m_bidxLocal m) < localIdxEnd dbl"
    and "localIndex (m_bidxLocal m) = globalIndex (m_bidxLocal m) - localIdxBegin dbl"
    and "dblBox dbl (m_bidxLocal m) = latticeBox a_domain a_maxBoxSize ivBase"
    and "m_regionRecv m = intersect (grow (latticeBox a_domain a_maxBoxSize ivBase) a_numGhost)
           (latticeBox a_domain a_maxBoxSize (ivAdd ivBase (m_sendDir m)))"
    and "m_localProcID m = procID"
    and "m_remoteProcID m = dblProc dbl (m_bidxRemote m)"
    by simp_all
qed

lemma ivAdd_left_cancel: "ivAdd b v = ivAdd b w \<longleftrightarrow> v = w"
  by (cases b; cases v; cases w) (simp add: ivAdd_def)

lemma containsBox_grow_intersect:
  "g \<le> n \<Longrightarrow> containsBox (grow b n) (intersect (grow b g) c)"
  by (cases b; cases c; cases "loVect b"; cases "hiVect b"; cases "loVect c"; cases "hiVect c")
     (auto simp: containsBox_def grow_def intersect_def ivLe_def ivMax_def ivMin_def ivAdd_def
        ivSub_def ivScale_def ivUnit_def max_def min_def)

lemma containsBox_cells_subset: "containsBox b c \<Longrightarrow> cells c \<subseteq> cells b"
  using containsBox_cells by (auto simp: cells_def)

text \<open>
  Two items of a plan for the same local box and different directions receive into disjoint
  regions, and every receive region lies in the local box grown by the ghost width.
\<close>

lemma plan_recv_disjoint:
  assumes wf: "\<not> isEmpty a_domain" "ivLe ivUnit a_maxBoxSize" "1 \<le> numProc"
      "DisjointBoxLayout_define numProc procID a_domain a_maxBoxSize = Inr dbl"
    and pr: "0 \<le> procID" "procID < numProc"
    and cp: "defineExchangeDBL use_mpi sizeofT dbl a_numGhost a_startComp a_numComp
           a_periodic a_trim = Inr cp"
    and m: "m \<in> set (m_motionItem cp)" "m' \<in> set (m_motionItem cp)"
    and same: "globalIndex (m_bidxLocal m) = globalIndex (m_bidxLocal m')"
    and diff: "m_sendDir m \<noteq> m_sendDir m'"
  shows "cells (m_regionRecv m) \<inter> cells (m_regionRecv m') = {}"
proof -
  let ?base = "ivBaseOf (m_stride dbl) (globalIndex (m_bidxLocal m))"
  note a = plan_item_recv(5) [OF wf pr cp m(1)]
  note b = plan_item_recv(5) [OF wf pr cp m(2), folded same]
  have "ivAdd ?base (m_sendDir m) \<noteq> ivAdd ?base (m_sendDir m')"
    using diff by (simp add: ivAdd_left_cancel)
  from latticeBox_disjoint [OF wf(2) this, of a_domain]
  have "cells (latticeBox a_domain a_maxBoxSize (ivAdd ?base (m_sendDir m)))
      \<inter> cells (latticeBox a_domain a_maxBoxSize (ivAdd ?base (m_sendDir m'))) = {}"
    by (simp add: isEmpty_cells cells_intersect)
  then show ?thesis unfolding a b cells_intersect by blast
qed

lemma plan_recv_in_fab:
  assumes wf: "\<not> isEmpty a_domain" "ivLe ivUnit a_maxBoxSize" "1 \<le> numProc"
      "DisjointBoxLayout_define numProc procID a_domain a_maxBoxSize = Inr dbl"
    and pr: "0 \<le> procID" "procID < numProc"
    and cp: "defineExchangeDBL use_mpi sizeofT dbl a_numGhost a_startComp a_numComp
           a_periodic a_trim = Inr cp"
    and m: "m \<in> set (m_motionItem cp)"
    and g: "a_numGhost \<le> n"
  shows "containsBox (grow (dblBox dbl (m_bidxLocal m)) n) (m_regionRecv m)"
  unfolding plan_item_recv(4) [OF wf pr cp m] plan_item_recv(5) [OF wf pr cp m]
  by (rule containsBox_grow_intersect [OF g])

subsection \<open>Loops that stop at the first failure\<close>

lemma foldE_Inl: "fold (\<lambda>x r. case r of Inl e \<Rightarrow> Inl e | Inr s \<Rightarrow> f x s) xs (Inl e) = Inl e"
  by (induction xs) simp_all

lemma foldE_Nil [simp]: "foldE f [] s = Inr s"
  by (simp add: foldE_def)

lemma foldE_Cons:
  "foldE f (x # xs) s = (case f x s of Inl e \<Rightarrow> Inl e | Inr s' \<Rightarrow> foldE f xs s')"
  by (cases "f x s") (simp_all add: foldE_def foldE_Inl)

lemma foldE_snoc:
  "foldE f (xs @ [x]) s = (case foldE f xs s of Inl e \<Rightarrow> Inl e | Inr s' \<Rightarrow> f x s')"
  by (simp add: foldE_def)

lemma foldE_pure:
  assumes "\<And>x s. x \<in> set xs \<Longrightarrow> I s \<Longrightarrow> f x s = Inr (g x s) \<and> I (g x s)" and "I s"
  shows "foldE f xs s = Inr (fold g xs s)"
  using assms
proof (induction xs arbitrary: s)
  case Nil
  then show ?case by simp
next
  case (Cons x xs)
  from Cons.prems(1) [of x s] Cons.prems(2) have st: "f x s = Inr (g x s)" "I (g x s)" by simp_all
  have "foldE f xs (g x s) = Inr (fold g xs (g x s))"
    by (rule Cons.IH) (use Cons.prems(1) st(2) in simp_all)
  then show ?case by (simp add: foldE_Cons st(1))
qed

lemma foldE_upt_invariant:
  assumes "P 0 s" and "\<And>k s s'. k < n \<Longrightarrow> P k s \<Longrightarrow> f k s = Inr s' \<Longrightarrow> P (Suc k) s'"
    and "foldE f [0 ..< n] s = Inr s'"
  shows "P n s'"
  using assms(2,3)
proof (induction n arbitrary: s')
  case 0
  then show ?case using assms(1) by simp
next
  case (Suc n)
  from Suc.prems(2) obtain s1 where s1: "foldE f [0 ..< n] s = Inr s1" and st: "f n s1 = Inr s'"
    by (auto simp: foldE_snoc split: sum.splits)
  have "P n s1" by (rule Suc.IH [OF _ s1]) (use Suc.prems(1) in simp)
  from Suc.prems(1) [OF _ this st] show ?case by simp
qed

subsection \<open>The first loop of an exchange\<close>

text \<open>The boxes and component counts of the fabs of a level.\<close>

definition fabShapes :: "'a BaseFab list \<Rightarrow> (Box \<times> int) list" where
  "fabShapes fabs = map (\<lambda>f. (fab_box f, fab_ncomp f)) fabs"

lemma fabShapes_update:
  "i < length fabs \<Longrightarrow> fab_box f = fab_box (fabs ! i) \<Longrightarrow> fab_ncomp f = fab_ncomp (fabs ! i) \<Longrightarrow>
   fabShapes (fabs[i := f]) = fabShapes fabs"
  by (simp add: fabShapes_def map_update list_update_same_conv)

lemma BaseFab_copy_shape:
  "BaseFab_copy dst rd cd src rs cs n flags = Inr f \<Longrightarrow>
   fab_box f = fab_box dst \<and> fab_ncomp f = fab_ncomp dst"
  by (auto simp: BaseFab_copy_def Let_def split: if_splits)

lemma exchangeItem_Inr:
  assumes "exchangeItem True a_copier midx (ld, mp) = Inr (ld', mp')"
  shows "ld_disjointBoxLayout ld' = ld_disjointBoxLayout ld"
    and "ld_ncomp ld' = ld_ncomp ld" and "ld_nghost ld' = ld_nghost ld"
    and "fabShapes (ld_data ld') = fabShapes (ld_data ld)"
    and "mp_recvBuffer mp' = mp_recvBuffer mp"
    and "mp_requests mp' = mp_requests mp
           @ (if isLocal (m_motionItem a_copier ! midx) then [] else [midx, midx])"
proof -
  let ?motion = "m_motionItem a_copier ! midx"
  show "ld_disjointBoxLayout ld' = ld_disjointBoxLayout ld"
    and "ld_ncomp ld' = ld_ncomp ld" and "ld_nghost ld' = ld_nghost ld"
    and "mp_recvBuffer mp' = mp_recvBuffer mp"
    and "mp_requests mp' = mp_requests mp @ (if isLocal ?motion then [] else [midx, midx])"
    using assms
    by (auto simp: exchangeItem_def Let_def split: if_splits sum.splits option.splits)
  show "fabShapes (ld_data ld') = fabShapes (ld_data ld)"
  proof (cases "isLocal ?motion")
    case False
    with assms show ?thesis
      by (auto simp: exchangeItem_def Let_def split: if_splits sum.splits option.splits)
  next
    case True
    let ?i = "nat (localIndex (m_bidxLocal ?motion))"
    from assms True obtain fab where
      c: "BaseFab_copy (ld_data ld ! ?i) (m_regionRecv ?motion) (m_startComp a_copier)
            (ld_data ld ! nat (localIndex (m_bidxRemote ?motion))) (m_regionSendRemote ?motion)
            (m_startComp a_copier) (m_endComp a_copier - m_startComp a_copier)
            (m_compRecvFlags ?motion) = Inr fab"
      and l: "ld' = ld \<lparr> ld_data := (ld_data ld)[?i := fab] \<rparr>"
      and i: "?i < length (ld_data ld)"
      by (auto simp: exchangeItem_def Let_def split: if_splits sum.splits)
    from BaseFab_copy_shape [OF c] i show ?thesis
      unfolding l by (simp add: fabShapes_update)
  qed
qed

lemma exchangePost_Inr:
  assumes "exchangePost True a_copier (ld, mp) = Inr (ld', mp')"
  shows "ld_disjointBoxLayout ld' = ld_disjointBoxLayout ld"
    and "ld_ncomp ld' = ld_ncomp ld" and "ld_nghost ld' = ld_nghost ld"
    and "fabShapes (ld_data ld') = fabShapes (ld_data ld)"
    and "mp_recvBuffer mp' = mp_recvBuffer mp"
    and "mp_requests mp' = concat (map (\<lambda>i. [i, i])
           (filter (\<lambda>i. \<not> isLocal (m_motionItem a_copier ! i))
              [0 ..< length (m_motionItem a_copier)]))"
proof -
  let ?n = "length (m_motionItem a_copier)"
  let ?P = "\<lambda>k st. ld_disjointBoxLayout (fst st) = ld_disjointBoxLayout ld
      \<and> ld_ncomp (fst st) = ld_ncomp ld \<and> ld_nghost (fst st) = ld_nghost ld
      \<and> fabShapes (ld_data (fst st)) = fabShapes (ld_data ld)
      \<and> mp_recvBuffer (snd st) = mp_recvBuffer mp
      \<and> mp_requests (snd st) = concat (map (\<lambda>i. [i, i])
           (filter (\<lambda>i. \<not> isLocal (m_motionItem a_copier ! i)) [0 ..< k]))"
  have "?P ?n (ld', mp')"
  proof (rule foldE_upt_invariant [where P = ?P and f = "exchangeItem True a_copier"])
    show "?P 0 (ld, mp \<lparr> mp_requests := [] \<rparr>)" by simp
    show "foldE (exchangeItem True a_copier) [0 ..< ?n] (ld, mp \<lparr> mp_requests := [] \<rparr>)
        = Inr (ld', mp')"
      using assms by (simp add: exchangePost_def)
    fix k s s'
    assume k: "k < ?n" and p: "?P k s" and st: "exchangeItem True a_copier k s = Inr s'"
    obtain l1 m1 where s: "s = (l1, m1)" by (cases s)
    obtain l2 m2 where s': "s' = (l2, m2)" by (cases s')
    note e = exchangeItem_Inr [OF st [unfolded s s']]
    show "?P (Suc k) s'"
      using p unfolding s s' by (simp add: e)
  qed
  then show "ld_disjointBoxLayout ld' = ld_disjointBoxLayout ld"
    and "ld_ncomp ld' = ld_ncomp ld" and "ld_nghost ld' = ld_nghost ld"
    and "fabShapes (ld_data ld') = fabShapes (ld_data ld)"
    and "mp_recvBuffer mp' = mp_recvBuffer mp"
    and "mp_requests mp' = concat (map (\<lambda>i. [i, i])
           (filter (\<lambda>i. \<not> isLocal (m_motionItem a_copier ! i))
              [0 ..< length (m_motionItem a_copier)]))"
    by simp_all
qed

subsection \<open>The loop over the completed requests\<close>

lemma filter_index_length:
  "length (filter (\<lambda>i. P (xs ! i)) [0 ..< length xs]) = length (filter P xs)"
proof (induction xs rule: rev_induct)
  case Nil
  then show ?case by simp
next
  case (snoc x xs)
  have "filter (\<lambda>i. P ((xs @ [x]) ! i)) [0 ..< length xs] = filter (\<lambda>i. P (xs ! i)) [0 ..< length xs]"
    by (rule filter_cong) (simp_all add: nth_append)
  then show ?case using snoc by simp
qed

lemma defineExchangeDBL_fields:
  assumes "defineExchangeDBL use_mpi sizeofT dbl a_numGhost a_startComp a_numComp
             a_periodic a_trim = Inr cp"
  shows "m_startComp cp = a_startComp" and "m_endComp cp = a_startComp + a_numComp"
    and "0 \<le> a_startComp" and "0 < a_numComp"
    and "m_midxForReq cp = (if use_mpi
           then filter (\<lambda>i. \<not> isLocal (m_motionItem cp ! i)) [0 ..< length (m_motionItem cp)]
           else [])"
    and "m_numReq cp = 2 * int (length (filter (\<lambda>i. \<not> isLocal (m_motionItem cp ! i))
           [0 ..< length (m_motionItem cp)]))"
proof -
  from assms have c: "0 \<le> a_startComp" "0 < a_numComp"
    by (auto simp: defineExchangeDBL_def Let_def split: if_splits)
  then show "0 \<le> a_startComp" "0 < a_numComp" .
  from assms c show "m_startComp cp = a_startComp" "m_endComp cp = a_startComp + a_numComp"
    "m_midxForReq cp = (if use_mpi
           then filter (\<lambda>i. \<not> isLocal (m_motionItem cp ! i)) [0 ..< length (m_motionItem cp)]
           else [])"
    by (auto simp: defineExchangeDBL_def Let_def)
  from assms c have "m_numReq cp = 2 * int (length (filter (\<lambda>m. \<not> isLocal m) (m_motionItem cp)))"
    by (auto simp: defineExchangeDBL_def Let_def)
  then show "m_numReq cp = 2 * int (length (filter (\<lambda>i. \<not> isLocal (m_motionItem cp ! i))
           [0 ..< length (m_motionItem cp)]))"
    by (simp add: filter_index_length [of "\<lambda>m. \<not> isLocal m"])
qed

lemma nth_concat_pairs:
  assumes "r < 2 * length xs"
  shows "concat (map (\<lambda>i. [i, i]) xs) ! r = xs ! (r div 2)"
proof -
  have "concat (map (\<lambda>i. [i, i]) xs) ! ((r div 2) * 2 + r mod 2) = [xs ! (r div 2), xs ! (r div 2)] ! (r mod 2)"
    by (rule nth_concat_uniform) (use assms in simp_all)
  moreover have "[a, a] ! (r mod 2) = a" for a :: 'b
    by (cases "r mod 2 = 0") (simp_all add: mod2_eq_if)
  ultimately show ?thesis by simp
qed

lemma length_concat_pairs: "length (concat (map (\<lambda>i. [i, i]) xs)) = 2 * length xs"
  by (induction xs) simp_all

lemma word_and_one_odd: "((word_of_nat r :: 32 word) AND 1 \<noteq> 0) \<longleftrightarrow> odd r"
  by (simp add: and_one_eq word_of_nat_eq_0_iff mod2_eq_if)

lemma BaseFab_linearIn_Some:
  assumes "inBounds f region startComp endComp"
    and "length (regionOffsets (fab_box f) region [startComp .. endComp - 1]) \<le> length xs"
  shows "BaseFab_linearIn f (Some xs) region startComp endComp
       = Inr (f \<lparr> fab_data := scatter (regionOffsets (fab_box f) region [startComp .. endComp - 1])
                                xs (fab_data f) \<rparr>)"
  using assms by (simp add: BaseFab_linearIn_def Let_def)

text \<open>
  A level that was defined on a layout: its fabs sit on the local boxes grown by the ghost
  width.  What the fabs hold is arbitrary.
\<close>

definition LevelData_defined :: "DisjointBoxLayout \<Rightarrow> 'a LevelData \<Rightarrow> bool" where
  "LevelData_defined dbl ld =
     (ld_disjointBoxLayout ld = dbl
      \<and> fabShapes (ld_data ld)
          = map (\<lambda>bidx. (grow (dblBox dbl bidx) (ld_nghost ld), ld_ncomp ld))
                (LayoutIterator_indices (DataIterator_new dbl)))"

lemma LevelData_defined_fab:
  assumes "LevelData_defined dbl ld"
  shows "length (ld_data ld) = nat (localIdxEnd dbl - localIdxBegin dbl)"
    and "localIdxBegin dbl \<le> p \<Longrightarrow> p < localIdxEnd dbl \<Longrightarrow>
         fab_box (ld_data ld ! nat (p - localIdxBegin dbl)) = grow (dblBox dbl (BoxIndex p l)) (ld_nghost ld)
         \<and> fab_ncomp (ld_data ld ! nat (p - localIdxBegin dbl)) = ld_ncomp ld"
proof -
  let ?b = "localIdxBegin dbl" and ?e = "localIdxEnd dbl"
  from assms have sh: "fabShapes (ld_data ld)
      = map (\<lambda>g. (grow (dblBox dbl (BoxIndex g (g - ?b))) (ld_nghost ld), ld_ncomp ld)) [?b .. ?e - 1]"
    by (simp add: LevelData_defined_def LayoutIterator_indices_eq DataIterator_new_def
        LayoutIterator_new_def comp_def)
  from arg_cong [OF sh, of length] show len: "length (ld_data ld) = nat (?e - ?b)"
    by (simp add: fabShapes_def)
  assume p: "?b \<le> p" "p < ?e"
  then have i: "nat (p - ?b) < length (ld_data ld)" using len by simp
  have "fabShapes (ld_data ld) ! nat (p - ?b)
      = (grow (dblBox dbl (BoxIndex p (p - ?b))) (ld_nghost ld), ld_ncomp ld)"
    unfolding sh using p by (simp add: nth_upto_int)
  moreover have "dblBox dbl (BoxIndex p (p - ?b)) = dblBox dbl (BoxIndex p l)"
    by (simp add: dblBox_def)
  ultimately show "fab_box (ld_data ld ! nat (p - ?b)) = grow (dblBox dbl (BoxIndex p l)) (ld_nghost ld)
         \<and> fab_ncomp (ld_data ld ! nat (p - ?b)) = ld_ncomp ld"
    using i by (simp add: fabShapes_def)
qed

text \<open>
  What one iteration of the \<^verbatim>\<open>MPI_Waitany\<close> loop of \<^verbatim>\<open>exchange\<close> does to the state when
  nothing fails, with the fab boxes taken from the layout: a pure update.
\<close>

definition unpackWrite ::
  "DisjointBoxLayout \<Rightarrow> int \<Rightarrow> Copier \<Rightarrow> 'a list list \<Rightarrow> nat
     \<Rightarrow> 'a LevelData \<times> 'a Messaging \<Rightarrow> 'a LevelData \<times> 'a Messaging" where
  "unpackWrite dbl ng cp incoming ridx st =
     (if odd ridx then
        (let midx = m_midxForReq cp ! (ridx div 2); motion = m_motionItem cp ! midx
         in ((fst st) \<lparr> ld_data :=
                fabWrite (nat (localIndex (m_bidxLocal motion)))
                  (regionOffsets (grow (dblBox dbl (m_bidxLocal motion)) ng) (m_regionRecv motion)
                     [m_startComp cp .. m_endComp cp - 1])
                  (incoming ! midx) (ld_data (fst st)) \<rparr>,
             (snd st) \<lparr> mp_recvBuffer := (mp_recvBuffer (snd st))[midx := Some (incoming ! midx)] \<rparr>))
      else st)"

definition drainInv ::
  "DisjointBoxLayout \<Rightarrow> int \<Rightarrow> int \<Rightarrow> Copier \<Rightarrow> 'a LevelData \<times> 'a Messaging \<Rightarrow> bool" where
  "drainInv dbl ng ncmp cp st =
     (LevelData_defined dbl (fst st) \<and> ld_nghost (fst st) = ng \<and> ld_ncomp (fst st) = ncmp
      \<and> mp_requests (snd st) = concat (map (\<lambda>i. [i, i]) (m_midxForReq cp))
      \<and> length (mp_recvBuffer (snd st)) = length (m_motionItem cp))"

lemma exchangeWaitany_step:
  fixes incoming :: "'a list list"
  assumes wf: "\<not> isEmpty a_domain" "ivLe ivUnit a_maxBoxSize" "1 \<le> numProc"
      "DisjointBoxLayout_define numProc procID a_domain a_maxBoxSize = Inr dbl"
    and pr: "0 \<le> procID" "procID < numProc"
    and cp: "defineExchangeDBL True sizeofT dbl a_numGhost a_startComp a_numComp
           a_periodic a_trim = Inr cp"
    and gh: "a_numGhost \<le> ng" and nc: "a_startComp + a_numComp \<le> ncmp"
    and inc: "\<forall>midx < length (m_motionItem cp).
        length (fortranCells (m_regionRecv (m_motionItem cp ! midx))) * nat a_numComp
          \<le> length (incoming ! midx)"
    and inv: "drainInv dbl ng ncmp cp st"
    and r: "ridx < nat (m_numReq cp)"
  shows "exchangeWaitany cp incoming ridx st = Inr (unpackWrite dbl ng cp incoming ridx st)"
    and "drainInv dbl ng ncmp cp (unpackWrite dbl ng cp incoming ridx st)"
proof -
  obtain ld mp where st: "st = (ld, mp)" by (cases st)
  note f = defineExchangeDBL_fields [OF cp]
  let ?items = "m_motionItem cp"
  let ?req = "m_midxForReq cp"
  have req: "?req = filter (\<lambda>i. \<not> isLocal (?items ! i)) [0 ..< length ?items]"
    using f(5) by simp
  have nreq: "nat (m_numReq cp) = 2 * length ?req" unfolding f(6) req by simp
  from inv have ldd: "LevelData_defined dbl ld" and ng: "ld_nghost ld = ng"
    and ncmp: "ld_ncomp ld = ncmp"
    and rq: "mp_requests mp = concat (map (\<lambda>i. [i, i]) ?req)"
    and lb: "length (mp_recvBuffer mp) = length ?items"
    by (simp_all add: drainInv_def st)
  have "exchangeWaitany cp incoming ridx st = Inr (unpackWrite dbl ng cp incoming ridx st)
      \<and> drainInv dbl ng ncmp cp (unpackWrite dbl ng cp incoming ridx st)"
  proof (cases "odd ridx")
    case False
    then show ?thesis
      using inv by (simp add: exchangeWaitany_def unpackWrite_def complete_def Let_def
          word_and_one_odd)
  next
    case True
    let ?k = "ridx div 2"
    let ?midx = "?req ! ?k"
    let ?motion = "?items ! ?midx"
    let ?p = "globalIndex (m_bidxLocal ?motion)"
    let ?i = "nat (localIndex (m_bidxLocal ?motion))"
    let ?B = "grow (dblBox dbl (m_bidxLocal ?motion)) ng"
    let ?offs = "regionOffsets ?B (m_regionRecv ?motion) [m_startComp cp .. m_endComp cp - 1]"
    let ?mp' = "mp \<lparr> mp_recvBuffer := (mp_recvBuffer mp)[?midx := Some (incoming ! ?midx)] \<rparr>"
    let ?fab = "(ld_data ld ! ?i) \<lparr> fab_data := scatter ?offs (incoming ! ?midx) (fab_data (ld_data ld ! ?i)) \<rparr>"
    from r have k: "?k < length ?req" unfolding nreq by simp
    then have "?midx \<in> set ?req" by simp
    then have mi: "?midx < length ?items" and nl: "\<not> isLocal ?motion"
      by (simp_all add: req)
    then have mem: "?motion \<in> set ?items" by simp
    note it = plan_item_recv [OF wf pr cp mem]
    have li: "localIndex (m_bidxLocal ?motion) = ?p - localIdxBegin dbl" by (rule it(3))
    note fb = LevelData_defined_fab [OF ldd]
    have i: "?i < length (ld_data ld)" using it(1,2) unfolding li fb(1) by simp
    have bidx: "m_bidxLocal ?motion = BoxIndex ?p (localIndex (m_bidxLocal ?motion))"
      by (cases "m_bidxLocal ?motion") simp
    from fb(2) [OF it(1,2), of "localIndex (m_bidxLocal ?motion)"]
    have box: "fab_box (ld_data ld ! ?i) = ?B" and fnc: "fab_ncomp (ld_data ld ! ?i) = ncmp"
      unfolding li [symmetric] bidx [symmetric] ng ncmp by simp_all
    have cm: "complete incoming ridx mp = ?mp'"
      using True r by (simp add: complete_def rq length_concat_pairs nreq nth_concat_pairs)
    have d2: "int ridx sdiv 2 = int (ridx div 2)"
      by (simp add: sdiv_nonneg_pos zdiv_int)
    have mx: "motionItemIndex cp (int ridx) = Inr (int ?midx)"
      unfolding motionItemIndex_def d2 using k by simp
    have ca: "Copier_at cp (int ?midx) = Inr ?motion"
      using mi by (simp add: Copier_at_def)
    have lx: "LevelData_index ld (m_bidxLocal ?motion) = Inr ?i"
      using it(1,2) i ldd
      by (simp add: LevelData_index_def li localSize_def localIdxEnd_def localIdxBegin_def
          LevelData_defined_def)
    have ib: "inBounds (ld_data ld ! ?i) (m_regionRecv ?motion) (m_startComp cp) (m_endComp cp)"
      using plan_recv_in_fab [OF wf pr cp mem gh] f(3) nc
      by (simp add: inBounds_def box fnc f(1,2))
    have "length ?offs = nat a_numComp * length (fortranCells (m_regionRecv ?motion))"
      using f(4) by (simp add: length_regionOffsets f(1,2))
    then have ln: "length (regionOffsets (fab_box (ld_data ld ! ?i)) (m_regionRecv ?motion)
        [m_startComp cp .. m_endComp cp - 1]) \<le> length (incoming ! ?midx)"
      unfolding box using inc mi by (simp add: mult.commute)
    have rb: "(mp_recvBuffer mp)[?midx := Some (incoming ! ?midx)] ! ?midx = Some (incoming ! ?midx)"
      using mi lb by simp
    have lin: "BaseFab_linearIn (ld_data ld ! ?i) (Some (incoming ! ?midx)) (m_regionRecv ?motion)
        (m_startComp cp) (m_endComp cp) = Inr ?fab"
      unfolding BaseFab_linearIn_Some [OF ib ln] box ..
    have up: "unpack cp ?motion ?midx (ld, ?mp')
        = Inr (ld \<lparr> ld_data := (ld_data ld)[?i := ?fab] \<rparr>, ?mp')"
      by (simp add: unpack_def Let_def lx rb lin)
    have w: "unpackWrite dbl ng cp incoming ridx st
        = (ld \<lparr> ld_data := (ld_data ld)[?i := ?fab] \<rparr>, ?mp')"
      using True by (simp add: unpackWrite_def Let_def st fabWrite_def)
    have step: "exchangeWaitany cp incoming ridx st = Inr (unpackWrite dbl ng cp incoming ridx st)"
      unfolding w unfolding exchangeWaitany_def Let_def st fst_conv snd_conv cm
      using True nl by (simp add: word_and_one_odd mx ca up)
    have sh: "fabShapes ((ld_data ld)[?i := ?fab]) = fabShapes (ld_data ld)"
      by (rule fabShapes_update [OF i]) simp_all
    have "drainInv dbl ng ncmp cp (ld \<lparr> ld_data := (ld_data ld)[?i := ?fab] \<rparr>, ?mp')"
      using inv by (simp add: drainInv_def st LevelData_defined_def sh)
    with step show ?thesis unfolding w by simp
  qed
  then show "exchangeWaitany cp incoming ridx st = Inr (unpackWrite dbl ng cp incoming ridx st)"
    and "drainInv dbl ng ncmp cp (unpackWrite dbl ng cp incoming ridx st)"
    by simp_all
qed

lemma unpackWrite_commute:
  fixes incoming :: "'a list list"
  assumes wf: "\<not> isEmpty a_domain" "ivLe ivUnit a_maxBoxSize" "1 \<le> numProc"
      "DisjointBoxLayout_define numProc procID a_domain a_maxBoxSize = Inr dbl"
    and pr: "0 \<le> procID" "procID < numProc"
    and cp: "defineExchangeDBL True sizeofT dbl a_numGhost a_startComp a_numComp
           a_periodic a_trim = Inr cp"
    and gh: "a_numGhost \<le> ng"
    and r: "r1 < nat (m_numReq cp)" "r2 < nat (m_numReq cp)"
  shows "unpackWrite dbl ng cp incoming r1 (unpackWrite dbl ng cp incoming r2 st)
       = unpackWrite dbl ng cp incoming r2 (unpackWrite dbl ng cp incoming r1 st)"
proof (cases "odd r1 \<and> odd r2 \<and> r1 \<noteq> r2")
  case False
  then show ?thesis by (auto simp: unpackWrite_def)
next
  case True
  obtain ld mp where st: "st = (ld, mp)" by (cases st)
  note f = defineExchangeDBL_fields [OF cp]
  let ?items = "m_motionItem cp"
  let ?req = "m_midxForReq cp"
  let ?comps = "[m_startComp cp .. m_endComp cp - 1]"
  have req: "?req = filter (\<lambda>i. \<not> isLocal (?items ! i)) [0 ..< length ?items]"
    using f(5) by simp
  have nreq: "nat (m_numReq cp) = 2 * length ?req" unfolding f(6) req by simp
  have dreq: "distinct ?req" unfolding req by simp
  define x1 where "x1 = ?req ! (r1 div 2)"
  define x2 where "x2 = ?req ! (r2 div 2)"
  define m1 where "m1 = ?items ! x1"
  define m2 where "m2 = ?items ! x2"
  define i1 where "i1 = nat (localIndex (m_bidxLocal m1))"
  define i2 where "i2 = nat (localIndex (m_bidxLocal m2))"
  define o1 where "o1 = regionOffsets (grow (dblBox dbl (m_bidxLocal m1)) ng) (m_regionRecv m1) ?comps"
  define o2 where "o2 = regionOffsets (grow (dblBox dbl (m_bidxLocal m2)) ng) (m_regionRecv m2) ?comps"
  from r have k: "r1 div 2 < length ?req" "r2 div 2 < length ?req" unfolding nreq by simp_all
  from True have "r1 div 2 \<noteq> r2 div 2" by (metis odd_two_times_div_two_succ)
  then have xne: "x1 \<noteq> x2"
    unfolding x1_def x2_def using dreq k by (simp add: nth_eq_iff_index_eq)
  from k have "x1 \<in> set ?req" "x2 \<in> set ?req" unfolding x1_def x2_def by simp_all
  then have xl: "x1 < length ?items" "x2 < length ?items" by (simp_all add: req)
  then have mem: "m1 \<in> set ?items" "m2 \<in> set ?items" unfolding m1_def m2_def by simp_all
  note a = plan_item_recv [OF wf pr cp mem(1)] and b = plan_item_recv [OF wf pr cp mem(2)]
  have dj: "set o1 \<inter> set o2 = {}" if same: "i1 = i2"
  proof -
    from same have g: "globalIndex (m_bidxLocal m1) = globalIndex (m_bidxLocal m2)"
      using a(1) b(1) unfolding i1_def i2_def a(3) b(3) by simp
    then have bx: "dblBox dbl (m_bidxLocal m2) = dblBox dbl (m_bidxLocal m1)"
      by (simp add: dblBox_def)
    from plan_keys_distinct [OF wf pr cp] xl xne
    have "(globalIndex (m_bidxLocal m1), m_sendDir m1) \<noteq> (globalIndex (m_bidxLocal m2), m_sendDir m2)"
      unfolding m1_def m2_def by (simp add: distinct_conv_nth)
    with g have sd: "m_sendDir m1 \<noteq> m_sendDir m2" by simp
    note c1 = containsBox_cells_subset [OF plan_recv_in_fab [OF wf pr cp mem(1) gh]]
    note c2 = containsBox_cells_subset [OF plan_recv_in_fab [OF wf pr cp mem(2) gh], unfolded bx]
    have "\<forall>c \<in> set ?comps. 0 \<le> c" using f(3) by (simp add: f(1))
    from regionOffsets_disjoint [OF c1 c2 plan_recv_disjoint [OF wf pr cp mem g sd] this]
    show ?thesis unfolding o1_def o2_def bx .
  qed
  then have fw: "fabWrite i1 o1 v1 (fabWrite i2 o2 v2 fabs) = fabWrite i2 o2 v2 (fabWrite i1 o1 v1 fabs)"
    for v1 v2 :: "'a list" and fabs
    by (intro fabWrite_commute) blast
  have lu: "(xs[x2 := b2])[x1 := b1] = (xs[x1 := b1])[x2 := b2]" for xs :: "'a list option list" and b1 b2
    using xne by (simp add: list_update_swap)
  have w1: "unpackWrite dbl ng cp incoming r1 (l, q)
      = (l \<lparr> ld_data := fabWrite i1 o1 (incoming ! x1) (ld_data l) \<rparr>,
         q \<lparr> mp_recvBuffer := (mp_recvBuffer q)[x1 := Some (incoming ! x1)] \<rparr>)" for l q
    using True by (simp add: unpackWrite_def Let_def x1_def m1_def i1_def o1_def)
  have w2: "unpackWrite dbl ng cp incoming r2 (l, q)
      = (l \<lparr> ld_data := fabWrite i2 o2 (incoming ! x2) (ld_data l) \<rparr>,
         q \<lparr> mp_recvBuffer := (mp_recvBuffer q)[x2 := Some (incoming ! x2)] \<rparr>)" for l q
    using True by (simp add: unpackWrite_def Let_def x2_def m2_def i2_def o2_def)
  show ?thesis
    unfolding st w1 w2 by (simp add: fw [of "incoming ! x1"] lu [of _ _ "Some (incoming ! x1)"])
qed

lemma LevelData_new_defined: "LevelData_defined dbl (LevelData_new dbl ncomp nghost fill)"
  by (simp add: LevelData_defined_def LevelData_new_def fabShapes_def BaseFab_define_def comp_def)

text \<open>
  With all requests completing, in whatever order, the \<^verbatim>\<open>MPI_Waitany\<close> loop of
  \<^verbatim>\<open>exchange\<close> does not fail and ends in the same state.
\<close>

lemma exchange_drain_permuted:
  fixes incoming :: "'a list list"
  assumes wf: "\<not> isEmpty a_domain" "ivLe ivUnit a_maxBoxSize" "1 \<le> numProc"
      "DisjointBoxLayout_define numProc procID a_domain a_maxBoxSize = Inr dbl"
    and pr: "0 \<le> procID" "procID < numProc"
    and cp: "defineExchangeDBL True sizeofT dbl a_numGhost a_startComp a_numComp
           a_periodic a_trim = Inr cp"
    and gh: "a_numGhost \<le> ng" and nc: "a_startComp + a_numComp \<le> ncmp"
    and inc: "\<forall>midx < length (m_motionItem cp).
        length (fortranCells (m_regionRecv (m_motionItem cp ! midx))) * nat a_numComp
          \<le> length (incoming ! midx)"
    and inv: "drainInv dbl ng ncmp cp st"
    and o1: "mset order1 = mset [0 ..< nat (m_numReq cp)]"
    and o2: "mset order2 = mset [0 ..< nat (m_numReq cp)]"
  shows "foldE (exchangeWaitany cp incoming) (take (nat (m_numReq cp)) order1) st
       = foldE (exchangeWaitany cp incoming) (take (nat (m_numReq cp)) order2) st"
proof -
  let ?n = "nat (m_numReq cp)"
  let ?g = "unpackWrite dbl ng cp incoming"
  have pure: "foldE (exchangeWaitany cp incoming) ord st = Inr (fold ?g ord st)"
    if o: "mset ord = mset [0 ..< ?n]" for ord
  proof (rule foldE_pure [where I = "drainInv dbl ng ncmp cp :: 'a LevelData \<times> 'a Messaging \<Rightarrow> bool"])
    show "drainInv dbl ng ncmp cp st" by (rule inv)
    fix x and s :: "'a LevelData \<times> 'a Messaging"
    assume x: "x \<in> set ord" and s: "drainInv dbl ng ncmp cp s"
    from x have "x \<in> set [0 ..< ?n]" using mset_eq_setD [OF o] by simp
    then have "x < ?n" by simp
    from exchangeWaitany_step [OF wf pr cp gh nc inc s this]
    show "exchangeWaitany cp incoming x s = Inr (?g x s) \<and> drainInv dbl ng ncmp cp (?g x s)"
      by simp
  qed
  have len: "length ord = ?n" if "mset ord = mset [0 ..< ?n]" for ord
    using mset_eq_length [OF that] by simp
  have "fold ?g order1 st = fold ?g order2 st"
  proof (rule fold_multiset_equiv [THEN fun_cong])
    show "mset order1 = mset order2" using o1 o2 by simp
    fix x y assume "x \<in> set order1" "y \<in> set order1"
    then have "x < ?n" "y < ?n" using mset_eq_setD [OF o1] by auto
    then show "?g x \<circ> ?g y = ?g y \<circ> ?g x"
      by (intro ext) (simp add: unpackWrite_commute [OF wf pr cp gh])
  qed
  then show ?thesis
    by (simp add: len [OF o1] len [OF o2] pure [OF o1] pure [OF o2])
qed

end
